theory Spec2Isabelle
  imports Complex_Main
begin

section \<open>StackedData: stacked minimum and maximum of an axis\<close>

text \<open>
  The entries of a numeric series are JavaScript numbers. A number is either an ordinary
  value or \<open>NaN\<close>; an ordinary value is the real number the double stands for, and
  the two infinities are outside the model. The loops are given twice: first with exact
  addition, then with the addition of the machine as a parameter.
\<close>

datatype jsnum = Num real | NaN

type_synonym series = "jsnum list"

text \<open>
  The \<open>keys\<close> attribute is an object from series name to array. The list holds its own
  properties in the order a \<open>for (key in keys)\<close> loop visits them.
\<close>

type_synonym stacked_keys = "(string \<times> series) list"

text \<open>\<open>keys[key][i]\<close>: reading past the end of an array gives \<open>undefined\<close> (here \<open>None\<close>).\<close>

definition at_index :: "series \<Rightarrow> nat \<Rightarrow> jsnum option" where
  "at_index arr i = (if i < length arr then Some (arr ! i) else None)"

text \<open>\<open>isNaN(num)\<close> is true of \<open>NaN\<close> and of \<open>undefined\<close>.\<close>

fun isNaN :: "jsnum option \<Rightarrow> bool" where
  "isNaN None = True"
| "isNaN (Some NaN) = True"
| "isNaN (Some (Num v)) = False"

text \<open>First loop of \<open>_updateMinAndMax\<close>: \<open>len = Math.max(len, keys[key].length)\<close>.\<close>

fun longest :: "stacked_keys \<Rightarrow> nat \<Rightarrow> nat" where
  "longest [] len = len"
| "longest ((key, arr) # keys) len = longest keys (max len (length arr))"

text \<open>
  Inner loop, for one index \<open>i\<close>: every series adds its entry to \<open>pos\<close> or to \<open>neg\<close>,
  and \<open>continue\<close> skips an entry for which \<open>isNaN\<close> holds.
\<close>

fun stack_at :: "stacked_keys \<Rightarrow> nat \<Rightarrow> real \<times> real \<Rightarrow> real \<times> real" where
  "stack_at [] i (pos, neg) = (pos, neg)"
| "stack_at ((key, arr) # keys) i (pos, neg) =
     (case at_index arr i of
        Some (Num num) \<Rightarrow>
          if num \<ge> 0 then stack_at keys i (pos + num, neg)
          else stack_at keys i (pos, neg + num)
      | Some NaN \<Rightarrow> stack_at keys i (pos, neg)
      | None \<Rightarrow> stack_at keys i (pos, neg))"

text \<open>Outer loop \<open>for(; i < len; ++i)\<close>, carrying \<open>max\<close> and \<open>min\<close>.\<close>

function scan :: "stacked_keys \<Rightarrow> nat \<Rightarrow> nat \<Rightarrow> real \<times> real \<Rightarrow> real \<times> real" where
  "scan keys len i (mx, mn) =
     (if i < len then
        (case stack_at keys i (0, 0) of (pos, neg) \<Rightarrow>
           scan keys len (Suc i)
             (if pos > 0 then max mx pos else max mx neg,
              if neg < 0 then min mn neg else min mn pos))
      else (mx, mn))"
  by pat_completeness auto
termination
  by (relation "measure (\<lambda>(keys, len, i, acc). len - i)") auto

declare scan.simps [simp del]

text \<open>
  The two fields \<open>_updateMinAndMax\<close> assigns. Its last statement hands \<open>min\<close> and \<open>max\<close>
  (or the user's \<open>_setMinimum\<close> and \<open>_setMaximum\<close>) to \<open>_roundMinAndMax\<close>, a method of
  the numeric axis that is defined outside this class and is not part of the model.
\<close>

record stacked_bounds =
  actualMaximum :: real
  actualMinimum :: real

definition updateMinAndMax :: "stacked_keys \<Rightarrow> stacked_bounds" where
  "updateMinAndMax keys =
     (case scan keys (longest keys 0) 0 (0, 0) of
        (mx, mn) \<Rightarrow> \<lparr>actualMaximum = mx, actualMinimum = mn\<rparr>)"

subsection \<open>The stacks under exact addition\<close>

text \<open>
  With exact addition the order of the series does not matter, and the two stacks at an
  index are plain sums: the positive stack is the sum of the entries there that are
  numbers \<open>\<ge> 0\<close>, the negative stack the sum of those \<open>< 0\<close>. The scan covers
  the indices below the length of the longest series.
\<close>

fun pos_part :: "jsnum option \<Rightarrow> real" where
  "pos_part (Some (Num v)) = (if v \<ge> 0 then v else 0)"
| "pos_part _ = 0"

fun neg_part :: "jsnum option \<Rightarrow> real" where
  "neg_part (Some (Num v)) = (if v < 0 then v else 0)"
| "neg_part _ = 0"

definition pos_sum :: "stacked_keys \<Rightarrow> nat \<Rightarrow> real" where
  "pos_sum keys i = (\<Sum>(key, arr) \<leftarrow> keys. pos_part (at_index arr i))"

definition neg_sum :: "stacked_keys \<Rightarrow> nat \<Rightarrow> real" where
  "neg_sum keys i = (\<Sum>(key, arr) \<leftarrow> keys. neg_part (at_index arr i))"

definition longest_length :: "stacked_keys \<Rightarrow> nat" where
  "longest_length keys = Max (insert 0 (set (map (\<lambda>(key, arr). length arr) keys)))"

subsection \<open>The loops over the machine's own addition\<close>

text \<open>
  \<open>pos += num\<close> and \<open>neg += num\<close> add doubles: the result is the double nearest to
  the sum, so it depends on the order in which the series are visited and need not be the
  exact sum. The functions below are the same three loops with that addition as the
  parameter \<open>add\<close>; the comparisons and \<open>Math.max\<close>, \<open>Math.min\<close> are exact on
  doubles. At \<open>add = (+)\<close> they are the functions above.
\<close>

fun stack_at_with ::
  "(real \<Rightarrow> real \<Rightarrow> real) \<Rightarrow> stacked_keys \<Rightarrow> nat \<Rightarrow> real \<times> real \<Rightarrow> real \<times> real" where
  "stack_at_with add [] i (pos, neg) = (pos, neg)"
| "stack_at_with add ((key, arr) # keys) i (pos, neg) =
     (case at_index arr i of
        Some (Num num) \<Rightarrow>
          if num \<ge> 0 then stack_at_with add keys i (add pos num, neg)
          else stack_at_with add keys i (pos, add neg num)
      | Some NaN \<Rightarrow> stack_at_with add keys i (pos, neg)
      | None \<Rightarrow> stack_at_with add keys i (pos, neg))"

function scan_with ::
  "(real \<Rightarrow> real \<Rightarrow> real) \<Rightarrow> stacked_keys \<Rightarrow> nat \<Rightarrow> nat \<Rightarrow> real \<times> real \<Rightarrow> real \<times> real" where
  "scan_with add keys len i (mx, mn) =
     (if i < len then
        (case stack_at_with add keys i (0, 0) of (pos, neg) \<Rightarrow>
           scan_with add keys len (Suc i)
             (if pos > 0 then max mx pos else max mx neg,
              if neg < 0 then min mn neg else min mn pos))
      else (mx, mn))"
  by pat_completeness auto
termination
  by (relation "measure (\<lambda>(add, keys, len, i, acc). len - i)") auto

declare scan_with.simps [simp del]

definition updateMinAndMax_with :: "(real \<Rightarrow> real \<Rightarrow> real) \<Rightarrow> stacked_keys \<Rightarrow> stacked_bounds" where
  "updateMinAndMax_with add keys =
     (case scan_with add keys (longest keys 0) 0 (0, 0) of
        (mx, mn) \<Rightarrow> \<lparr>actualMaximum = mx, actualMinimum = mn\<rparr>)"

text \<open>
  What is known of the addition of doubles and used below: the sum of two numbers that
  are not negative is not negative, and the sum of two that are not positive is not
  positive (rounding to the nearest double never crosses zero).
\<close>

definition sign_preserving :: "(real \<Rightarrow> real \<Rightarrow> real) \<Rightarrow> bool" where
  "sign_preserving add \<longleftrightarrow>
     (\<forall>a b. 0 \<le> a \<and> 0 \<le> b \<longrightarrow> 0 \<le> add a b) \<and> (\<forall>a b. a \<le> 0 \<and> b \<le> 0 \<longrightarrow> add a b \<le> 0)"

text \<open>
  The running sums the claim speaks of: at an index, the entries that are numbers
  \<open>\<ge> 0\<close>, in the order of the series, added up from 0 one after the other with the
  machine's addition; and likewise the entries \<open>< 0\<close>.
\<close>

fun nonneg_entry :: "jsnum option \<Rightarrow> real list" where
  "nonneg_entry (Some (Num v)) = (if v \<ge> 0 then [v] else [])"
| "nonneg_entry _ = []"

fun negative_entry :: "jsnum option \<Rightarrow> real list" where
  "negative_entry (Some (Num v)) = (if v < 0 then [v] else [])"
| "negative_entry _ = []"

definition pos_run :: "(real \<Rightarrow> real \<Rightarrow> real) \<Rightarrow> stacked_keys \<Rightarrow> nat \<Rightarrow> real" where
  "pos_run add keys i = foldl add 0 (concat (map (\<lambda>(key, arr). nonneg_entry (at_index arr i)) keys))"

definition neg_run :: "(real \<Rightarrow> real \<Rightarrow> real) \<Rightarrow> stacked_keys \<Rightarrow> nat \<Rightarrow> real" where
  "neg_run add keys i = foldl add 0 (concat (map (\<lambda>(key, arr). negative_entry (at_index arr i)) keys))"



text \<open>
  \<open>every_number P keys\<close>: every entry of every series that is a number satisfies \<open>P\<close>.
\<close>

definition every_number :: "(real \<Rightarrow> bool) \<Rightarrow> stacked_keys \<Rightarrow> bool" where
  "every_number P keys =
     list_all (\<lambda>(key, arr). list_all (\<lambda>v. case v of Num r \<Rightarrow> P r | NaN \<Rightarrow> True) arr) keys"

subsection \<open>Sample series\<close>

definition positive_example :: stacked_keys where
  "positive_example = [(''a'', [Num 5, Num 2]), (''b'', [Num 3])]"

definition negative_example :: stacked_keys where
  "negative_example = [(''a'', [Num (- 5), Num (- 2)]), (''b'', [Num (- 3)])]"

section \<open>CategoryImpl: category data of an axis\<close>

text \<open>
  JavaScript values as far as the category axis and the widget code look at them. A value
  of type \<open>JRef\<close> is a reference to an object or a function; only its being there
  matters.
\<close>

datatype jsval = JUndefined | JNull | JBool bool | JNum jsnum | JStr string | JRef nat

text \<open>Truthiness, as \<open>if (v)\<close>, \<open>&&\<close>, \<open>||\<close> and \<open>!\<close> read a value.\<close>

fun truthy :: "jsval \<Rightarrow> bool" where
  "truthy JUndefined = False"
| "truthy JNull = False"
| "truthy (JBool b) = b"
| "truthy (JNum (Num r)) = (r \<noteq> 0)"
| "truthy (JNum NaN) = False"
| "truthy (JStr s) = (s \<noteq> [])"
| "truthy (JRef a) = True"

text \<open>
  An element of the data array is an object, held as its list of properties. \<open>obj[key]\<close>
  is \<open>undefined\<close> for a property the object does not have. (On an element that is
  \<open>null\<close> or \<open>undefined\<close> the read would throw; the type leaves such arrays out.)
\<close>

type_synonym jsobject = "(string \<times> jsval) list"

definition get_prop :: "jsobject \<Rightarrow> string \<Rightarrow> jsval" where
  "get_prop obj key = (case map_of obj key of None \<Rightarrow> JUndefined | Some v \<Rightarrow> v)"

text \<open>
  \<open>arr[i] = v\<close>: inside the array the element is replaced; at or past the end the array
  grows, and the skipped positions read as \<open>undefined\<close>.
\<close>

definition array_set :: "jsval list \<Rightarrow> nat \<Rightarrow> jsval \<Rightarrow> jsval list" where
  "array_set arr i v =
     (if i < length arr then arr[i := v]
      else arr @ replicate (i - length arr) JUndefined @ [v])"

text \<open>\<open>arr[index]\<close> for a number \<open>index\<close>: \<open>undefined\<close> outside \<open>0 .. length - 1\<close>.\<close>

definition array_get :: "jsval list \<Rightarrow> int \<Rightarrow> jsval" where
  "array_get arr index =
     (if 0 \<le> index \<and> nat index < length arr then arr ! nat index else JUndefined)"

text \<open>The number \<open>i\<close> as the loop counter stores it.\<close>

definition index_value :: "nat \<Rightarrow> jsval" where
  "index_value i = JNum (Num (real i))"

text \<open>
  The state of the axis that the methods below read and write: \<open>_indices\<close> (\<open>null\<close>
  until first used), the object behind the \<open>keys\<close> attribute, \<open>_dataClone\<close> and
  \<open>_updateTotalDataFlag\<close>.
\<close>

record category_impl =
  indices :: "(string \<rightharpoonup> jsval list) option"
  keys_attr :: "string \<rightharpoonup> jsval list"
  dataClone :: "jsobject list"
  updateTotalDataFlag :: bool

text \<open>
  The loop shared by \<open>_getKeyArray\<close> and \<open>_setDataByKey\<close>:
  \<^verbatim>\<open>for(; i < len; ++i) { obj = data[i]; keyArr[i] = i; labels[i] = obj[key]; }\<close>
  with \<open>len = data.length\<close>.
\<close>

function key_loop ::
  "string \<Rightarrow> jsobject list \<Rightarrow> nat \<Rightarrow> jsval list \<times> jsval list \<Rightarrow> jsval list \<times> jsval list" where
  "key_loop key data i (keyArr, labels) =
     (if i < length data then
        key_loop key data (Suc i)
          (array_set keyArr i (index_value i), array_set labels i (get_prop (data ! i) key))
      else (keyArr, labels))"
  by pat_completeness auto
termination
  by (relation "measure (\<lambda>(key, data, i, acc). length data - i)") auto

declare key_loop.simps [simp del]

text \<open>\<open>if(!this._indices) { this._indices = {}; }\<close>\<close>

definition ensure_indices :: "category_impl \<Rightarrow> (string \<rightharpoonup> jsval list)" where
  "ensure_indices s = (case indices s of None \<Rightarrow> Map.empty | Some m \<Rightarrow> m)"

text \<open>\<open>_getKeyArray(key, data)\<close> returns the labels and leaves the index in \<open>_indices\<close>.\<close>

definition getKeyArray ::
  "string \<Rightarrow> jsobject list \<Rightarrow> category_impl \<Rightarrow> jsval list \<times> category_impl" where
  "getKeyArray key data s =
     (case key_loop key data 0 ([], []) of
        (keyArr, labels) \<Rightarrow>
          (labels, s\<lparr>indices := Some ((ensure_indices s)(key \<mapsto> keyArr))\<rparr>))"

text \<open>
  \<open>_setDataByKey(key)\<close> works on a copy of \<open>_dataClone\<close> and stores a copy of the labels
  in the \<open>keys\<close> attribute.
\<close>

definition setDataByKey :: "string \<Rightarrow> category_impl \<Rightarrow> category_impl" where
  "setDataByKey key s =
     (case key_loop key (dataClone s) 0 ([], []) of
        (arr, labels) \<Rightarrow>
          s\<lparr>indices := Some ((ensure_indices s)(key \<mapsto> arr)),
            keys_attr := (keys_attr s)(key \<mapsto> labels),
            updateTotalDataFlag := True\<rparr>)"

text \<open>
  \<open>getKeyValueAt(key, index)\<close>: \<open>value\<close> starts as \<open>NaN\<close> and is replaced only when
  \<open>keys[key] && keys[key][index]\<close> is truthy. An array is always truthy, so the first
  conjunct only asks whether the key is there.
\<close>

definition getKeyValueAt :: "category_impl \<Rightarrow> string \<Rightarrow> int \<Rightarrow> jsval" where
  "getKeyValueAt s key index =
     (case keys_attr s key of
        None \<Rightarrow> JNum NaN
      | Some arr \<Rightarrow> if truthy (array_get arr index) then array_get arr index else JNum NaN)"

subsection \<open>Sample axis\<close>

definition category_example :: category_impl where
  "category_example =
     \<lparr>indices = None,
      keys_attr = [''category'' \<mapsto> [JStr ''a'', JStr [], JNum (Num 0), JNull, JNum (Num 7)]],
      dataClone = [[(''category'', JStr ''a''), (''value'', JNum (Num 1))],
                   [(''value'', JNum (Num 2))]],
      updateTotalDataFlag = False\<rparr>"

section \<open>WidgetButtons: header, body and footer buttons of a widget\<close>

subsection \<open>Nodes, configurations and the widget\<close>

text \<open>
  A button node as far as the extension reads it: its identity, the data stored under
  \<open>name\<close> and \<open>default\<close> (\<open>getData\<close>) and its \<open>name\<close> attribute (\<open>get('name')\<close>).
  A name is a string or \<open>undefined\<close> (\<open>None\<close>).
\<close>

record node =
  node_id :: nat
  data_name :: "string option"
  attr_name :: "string option"
  data_default :: jsval

text \<open>
  A button configuration object. \<open>None\<close> is a property the object does not have. The
  properties that only wire events and styling (\<open>action\<close>, \<open>classNames\<close>, \<open>events\<close>,
  \<open>context\<close>) are handed to the host's button class and are not modelled.
\<close>

record button_config =
  cfg_name :: "string option"
  cfg_type :: "string option"
  cfg_section :: "string option"
  cfg_label :: "string option"
  cfg_isDefault :: "jsval option"

text \<open>What \<open>addButton\<close> and the \<open>buttons\<close> attribute accept for one button.\<close>

datatype button_spec = SpecName string | SpecConfig button_config

datatype button_arg = ANode node | ASpec button_spec

text \<open>
  The value of the \<open>buttons\<close> attribute: an object from section name to array of nodes,
  as the list of its properties in insertion order.
\<close>

type_synonym buttons = "(string \<times> node list) list"

text \<open>
  The widget: \<open>_stdModNode\<close> (a method that \<open>WidgetStdMod\<close> provides, \<open>undefined\<close>
  without it), the stored \<open>buttons\<close> attribute, \<open>_buttonsMap\<close>, \<open>_defaultButton\<close>, and
  whether \<open>_bindUIButtons\<close> has subscribed \<open>_afterButtonsChange\<close> to \<open>buttonsChange\<close>.
\<close>

record widget =
  stdModNode :: jsval
  buttons_attr :: buttons
  buttonsMap :: "string \<rightharpoonup> node"
  defaultButton :: "node option"
  buttonsChangeBound :: bool

datatype error = YError string

text \<open>
  The constructor. \<open>Y.error\<close> belongs to the host framework, which raises an error
  with the message it is given; the model returns that error as a value.
\<close>

definition WidgetButtons :: "widget \<Rightarrow> error + unit" where
  "WidgetButtons this =
     (if \<not> truthy (stdModNode this)
      then Inl (YError ''WidgetStdMod must be added to the Widget before WidgetButtons.'')
      else Inr ())"

text \<open>
  Modelled from the spec: the constants \<open>Y.WidgetStdMod.FOOTER\<close> and
  \<open>Y.WidgetStdMod.HEADER\<close>, which the host's \<open>WidgetStdMod\<close> defines outside the
  sources. The specification names the sections header, body and footer, and the
  documentation of \<open>addButton\<close> gives \<open>section="footer"\<close> as the default.
\<close>

definition DEFAULT_BUTTONS_SECTION :: string where
  "DEFAULT_BUTTONS_SECTION = ''footer''"

text \<open>The predefined buttons of the prototype: \<open>close\<close>, in the header.\<close>

definition BUTTONS :: "string \<rightharpoonup> button_config" where
  "BUTTONS =
     [''close'' \<mapsto> \<lparr>cfg_name = None, cfg_type = None, cfg_section = Some ''header'',
                     cfg_label = Some ''Close'', cfg_isDefault = None\<rparr>]"

text \<open>Truthiness of a string that may be \<open>undefined\<close>.\<close>

definition truthy_name :: "string option \<Rightarrow> bool" where
  "truthy_name n = (case n of None \<Rightarrow> False | Some s \<Rightarrow> s \<noteq> [])"

text \<open>A name used as a property key: \<open>undefined\<close> becomes the string \<open>undefined\<close>.\<close>

definition name_key :: "string option \<Rightarrow> string" where
  "name_key n = (case n of None \<Rightarrow> ''undefined'' | Some s \<Rightarrow> s)"

text \<open>
  \<open>obj[key] = v\<close> on an object held as a property list: an own property is replaced
  where it stands, a new one is added at the end. (An engine may enumerate properties
  with integer-like names ahead of the others; the list order then differs from the
  enumeration order, and no statement below depends on the order.)
\<close>

fun obj_put :: "string \<Rightarrow> 'v \<Rightarrow> (string \<times> 'v) list \<Rightarrow> (string \<times> 'v) list" where
  "obj_put key v [] = [(key, v)]"
| "obj_put key v ((k, x) # ps) = (if k = key then (k, v) # ps else (k, x) # obj_put key v ps)"

text \<open>
  Reading \<open>obj[key]\<close> on a plain object gives its own property; without one, what
  \<open>Object.prototype\<close> holds under that name (a function such as \<open>constructor\<close> or
  \<open>toString\<close>, or the prototype itself); and \<open>undefined\<close> otherwise. Which names
  \<open>Object.prototype\<close> answers to depends on the engine, so they are the parameter
  \<open>proto\<close> of everything that reads a plain object by a name the caller chooses.
\<close>

datatype 'v lookup = Own 'v | Inherited | Missing

definition obj_get :: "(string \<Rightarrow> bool) \<Rightarrow> (string \<times> 'v) list \<Rightarrow> string \<Rightarrow> 'v lookup" where
  "obj_get proto ps key =
     (case map_of ps key of
        Some v \<Rightarrow> Own v
      | None \<Rightarrow> if proto key then Inherited else Missing)"

text \<open>
  \<open>obj[section] || (obj[section] = [])\<close>, followed by a call of \<open>splice\<close> or \<open>push\<close>
  on the result: an own array is used, a missing one starts empty, and an inherited
  member is truthy and has neither method, so the call throws \<open>TypeError\<close>.
\<close>

datatype failure = TypeError

definition section_array :: "(string \<Rightarrow> bool) \<Rightarrow> buttons \<Rightarrow> string \<Rightarrow> failure + node list" where
  "section_array proto bs section =
     (case obj_get proto bs section of
        Own ns \<Rightarrow> Inr ns
      | Missing \<Rightarrow> Inr []
      | Inherited \<Rightarrow> Inl TypeError)"

text \<open>The sequence of buttons that a \<open>buttons\<close> value holds for a section, empty when
  it holds none.\<close>

definition section_sequence :: "buttons \<Rightarrow> string \<Rightarrow> node list" where
  "section_sequence bs section = (case map_of bs section of None \<Rightarrow> [] | Some ns \<Rightarrow> ns)"

text \<open>\<open>arr[index]\<close> on an array of nodes: \<open>undefined\<close> (\<open>None\<close>) outside the array.\<close>

definition node_at :: "node list \<Rightarrow> int \<Rightarrow> node option" where
  "node_at ns index = (if 0 \<le> index \<and> nat index < length ns then Some (ns ! nat index) else None)"

text \<open>
  \<open>arr.splice(index, 0, x)\<close>: a negative start counts from the end, and the start is
  clamped to \<open>0 .. length\<close>.
\<close>

definition splice_insert :: "'a list \<Rightarrow> int \<Rightarrow> 'a \<Rightarrow> 'a list" where
  "splice_insert arr index x =
     (let len = int (length arr);
          start = (if index < 0 then max (len + index) 0 else min index len)
      in take (nat start) arr @ [x] @ drop (nat start) arr)"

subsection \<open>Names and the default flag\<close>

text \<open>\<open>_getButtonName\<close>: \<open>getData('name') || get('name')\<close> for a node, \<open>name || type\<close>
  for a configuration.\<close>

definition getButtonName :: "node \<Rightarrow> string option" where
  "getButtonName button =
     (if truthy_name (data_name button) then data_name button else attr_name button)"

definition getConfigName :: "button_config \<Rightarrow> string option" where
  "getConfigName config =
     (if truthy_name (cfg_name config) then cfg_name config else cfg_type config)"

text \<open>\<open>toLowerCase\<close> on the ASCII letters.\<close>

definition to_lower :: "char \<Rightarrow> char" where
  "to_lower c = (let n = (of_char c :: nat) in if 65 \<le> n \<and> n \<le> 90 then char_of (n + 32) else c)"

text \<open>\<open>_getButtonDefault\<close>: a string counts when it reads \<open>true\<close> in any case, any other
  value by its truthiness.\<close>

definition is_default :: "jsval \<Rightarrow> bool" where
  "is_default v = (case v of JStr s \<Rightarrow> map to_lower s = ''true'' | _ \<Rightarrow> truthy v)"

definition getButtonDefault :: "node \<Rightarrow> bool" where
  "getButtonDefault button = is_default (data_default button)"

definition getConfigDefault :: "button_config \<Rightarrow> bool" where
  "getConfigDefault config =
     is_default (case cfg_isDefault config of None \<Rightarrow> JUndefined | Some v \<Rightarrow> v)"

subsection \<open>Creating a button from a configuration\<close>

text \<open>\<open>Y.mix(config, defConfig, false, ...)\<close>: a property of the defaults is copied only
  when the configuration does not have it.\<close>

definition or_default :: "'a option \<Rightarrow> 'a option \<Rightarrow> 'a option" where
  "or_default own dflt = (case own of None \<Rightarrow> dflt | Some v \<Rightarrow> Some v)"

definition mix_config :: "button_config \<Rightarrow> button_config \<Rightarrow> button_config" where
  "mix_config config defConfig =
     \<lparr>cfg_name = or_default (cfg_name config) (cfg_name defConfig),
      cfg_type = or_default (cfg_type config) (cfg_type defConfig),
      cfg_section = or_default (cfg_section config) (cfg_section defConfig),
      cfg_label = or_default (cfg_label config) (cfg_label defConfig),
      cfg_isDefault = or_default (cfg_isDefault config) (cfg_isDefault defConfig)\<rparr>"

text \<open>
  \<open>_mergeButtonConfig\<close>. Under a name that only \<open>Object.prototype\<close> answers to,
  \<open>this.BUTTONS[name]\<close> is a function or the prototype, with no enumerable property of
  its own for \<open>Y.mix\<close> to copy: the configuration stays as it is, as without a default.
\<close>

definition mergeButtonConfig :: "button_spec \<Rightarrow> button_config" where
  "mergeButtonConfig spec =
     (let config = (case spec of
                      SpecName s \<Rightarrow> \<lparr>cfg_name = Some s, cfg_type = None, cfg_section = None,
                                      cfg_label = None, cfg_isDefault = None\<rparr>
                    | SpecConfig c \<Rightarrow> c)
      in case BUTTONS (name_key (getConfigName config)) of
           None \<Rightarrow> config
         | Some defConfig \<Rightarrow> mix_config config defConfig)"

text \<open>
  \<open>_createButton\<close>: the node itself comes from the host's button class, here the
  parameter \<open>Y_Button\<close>; the method then stores the name and the default flag as data.
\<close>

definition createButton :: "(button_config \<Rightarrow> node) \<Rightarrow> button_config \<Rightarrow> node" where
  "createButton Y_Button config =
     (Y_Button config)\<lparr>data_name := cfg_name config,
                       data_default := JBool (getConfigDefault config)\<rparr>"

text \<open>
  The step that \<open>addButton\<close> and the setter share: a node is taken as it is; anything
  else is merged with the defaults and created, and a section that is not given falls
  back to the configured one.
\<close>

definition resolve_button ::
  "(button_config \<Rightarrow> node) \<Rightarrow> button_arg \<Rightarrow> string option \<Rightarrow> node \<times> string option" where
  "resolve_button Y_Button button section =
     (case button of
        ANode n \<Rightarrow> (n, section)
      | ASpec spec \<Rightarrow>
          (let config = mergeButtonConfig spec
           in (createButton Y_Button config,
               if truthy_name section then section else cfg_section config)))"

text \<open>\<open>section || (section = this.DEFAULT_BUTTONS_SECTION)\<close>\<close>

definition section_or_default :: "string option \<Rightarrow> string" where
  "section_or_default section =
     (case section of
        None \<Rightarrow> DEFAULT_BUTTONS_SECTION
      | Some s \<Rightarrow> if s \<noteq> [] then s else DEFAULT_BUTTONS_SECTION)"

subsection \<open>Getter and setter of the \<open>buttons\<close> attribute\<close>

text \<open>
  \<open>_getButtons\<close> builds a new object with a copy of every section array. On values the
  copy of an array is the array; the heap model further down keeps the two apart.
\<close>

fun copy_loop :: "buttons \<Rightarrow> buttons \<Rightarrow> buttons" where
  "copy_loop [] buttonsCopy = buttonsCopy"
| "copy_loop ((section, sectionButtons) # rest) buttonsCopy =
     copy_loop rest (obj_put section sectionButtons buttonsCopy)"

definition getButtons :: "buttons \<Rightarrow> buttons" where
  "getButtons bs = copy_loop bs []"

text \<open>\<open>(buttons[section] || (buttons[section] = [])).push(button)\<close>\<close>

definition obj_push :: "(string \<Rightarrow> bool) \<Rightarrow> string \<Rightarrow> node \<Rightarrow> buttons \<Rightarrow> failure + buttons" where
  "obj_push proto section button bs =
     (case section_array proto bs section of
        Inl e \<Rightarrow> Inl e
      | Inr ns \<Rightarrow> Inr (obj_put section (ns @ [button]) bs))"

text \<open>\<open>processButtons\<close> of \<open>_setButtons\<close>, one call per array of the configuration.\<close>

fun processButtons ::
  "(button_config \<Rightarrow> node) \<Rightarrow> (string \<Rightarrow> bool) \<Rightarrow> button_arg list \<Rightarrow> string option \<Rightarrow> buttons
     \<Rightarrow> failure + buttons" where
  "processButtons Y_Button proto [] currentSection bs = Inr bs"
| "processButtons Y_Button proto (button # rest) currentSection bs =
     (case resolve_button Y_Button button currentSection of
        (b, section) \<Rightarrow>
          (case obj_push proto (section_or_default section) b bs of
             Inl e \<Rightarrow> Inl e
           | Inr bs' \<Rightarrow> processButtons Y_Button proto rest currentSection bs'))"

datatype buttons_config =
  ConfigArray "button_arg list"
| ConfigObject "(string \<times> button_arg list) list"

fun each_section ::
  "(button_config \<Rightarrow> node) \<Rightarrow> (string \<Rightarrow> bool) \<Rightarrow> (string \<times> button_arg list) list \<Rightarrow> buttons
     \<Rightarrow> failure + buttons" where
  "each_section Y_Button proto [] bs = Inr bs"
| "each_section Y_Button proto ((currentSection, buttonConfigs) # rest) bs =
     (case processButtons Y_Button proto buttonConfigs (Some currentSection) bs of
        Inl e \<Rightarrow> Inl e
      | Inr bs' \<Rightarrow> each_section Y_Button proto rest bs')"

definition setButtons ::
  "(button_config \<Rightarrow> node) \<Rightarrow> (string \<Rightarrow> bool) \<Rightarrow> buttons_config \<Rightarrow> failure + buttons" where
  "setButtons Y_Button proto config =
     (case config of
        ConfigArray buttonConfigs \<Rightarrow> processButtons Y_Button proto buttonConfigs None []
      | ConfigObject sections \<Rightarrow> each_section Y_Button proto sections [])"

subsection \<open>The name map and the change handler\<close>

text \<open>
  \<open>_mapButton\<close>: \<open>this._buttonsMap[name] = button\<close> gives the map a property of its
  own under the name, also under one that \<open>Object.prototype\<close> answers to. (The one
  exception is the name \<open>__proto__\<close> where the engine has it: the assignment then
  replaces the map's prototype. The model does not follow that, and the theorem on the
  name lookup leaves the names that \<open>Object.prototype\<close> answers to aside.)
\<close>

definition mapButton :: "widget \<Rightarrow> node \<Rightarrow> widget" where
  "mapButton w button =
     w\<lparr>buttonsMap := (buttonsMap w)(name_key (getButtonName button) \<mapsto> button),
       defaultButton := (if getButtonDefault button then Some button else defaultButton w)\<rparr>"

definition mapButtons :: "widget \<Rightarrow> buttons \<Rightarrow> widget" where
  "mapButtons w bs =
     fold (\<lambda>(section, sectionButtons) w'. fold (\<lambda>button w''. mapButton w'' button) sectionButtons w')
       bs (w\<lparr>buttonsMap := Map.empty, defaultButton := None\<rparr>)"

definition unMapButton :: "widget \<Rightarrow> node \<Rightarrow> widget" where
  "unMapButton w button =
     w\<lparr>buttonsMap := (if buttonsMap w (name_key (getButtonName button)) = Some button
                       then (buttonsMap w)(name_key (getButtonName button) := None)
                       else buttonsMap w),
       defaultButton := (if defaultButton w = Some button then None else defaultButton w)\<rparr>"

text \<open>
  What a \<open>set('buttons', ...)\<close> carries on its event: \<open>src: 'add'\<close> with button, section
  and index, \<open>src: 'remove'\<close> with the button, or nothing.
\<close>

datatype change_src = SrcAdd node string int | SrcRemove node | SrcSet

text \<open>
  \<open>_afterButtonsChange\<close>. The calls that only touch the DOM (\<open>_uiInsertButton\<close>,
  \<open>_uiRemoveButton\<close>, \<open>_uiSetButtons\<close>) are not modelled.
\<close>

definition afterButtonsChange :: "widget \<Rightarrow> buttons \<Rightarrow> change_src \<Rightarrow> widget" where
  "afterButtonsChange w newVal src =
     (case src of
        SrcAdd button section index \<Rightarrow> mapButton w button
      | SrcRemove button \<Rightarrow> unMapButton w button
      | SrcSet \<Rightarrow> mapButtons w newVal)"

text \<open>
  \<open>this.set('buttons', value, options)\<close>, through the host's attribute system: the
  setter named in \<open>ATTRS\<close> computes the new state, the state is stored, and the
  \<open>buttonsChange\<close> event reaches \<open>_afterButtonsChange\<close> when \<open>_bindUIButtons\<close>
  has subscribed it. When the setter throws, nothing is stored.
\<close>

definition set_buttons ::
  "(button_config \<Rightarrow> node) \<Rightarrow> (string \<Rightarrow> bool) \<Rightarrow> widget \<Rightarrow> buttons_config \<Rightarrow> change_src
     \<Rightarrow> failure + widget" where
  "set_buttons Y_Button proto w config src =
     (case setButtons Y_Button proto config of
        Inl e \<Rightarrow> Inl e
      | Inr newVal \<Rightarrow>
          (let w' = w\<lparr>buttons_attr := newVal\<rparr>
           in Inr (if buttonsChangeBound w then afterButtonsChange w' newVal src else w')))"

definition bindUIButtons :: "widget \<Rightarrow> widget" where
  "bindUIButtons w = w\<lparr>buttonsChangeBound := True\<rparr>"

text \<open>\<open>initializer\<close>: builds the name map from the initial buttons. \<open>_bindUIButtons\<close> is
  only hooked after \<open>bindUI\<close>, so it has not run yet.\<close>

definition initializer :: "widget \<Rightarrow> widget" where
  "initializer w = mapButtons w (getButtons (buttons_attr w))"

subsection \<open>\<open>addButton\<close> and \<open>getButton\<close>\<close>

text \<open>The buttons object that \<open>addButton\<close> hands back to \<open>set\<close>: every element is a node.\<close>

definition as_config :: "buttons \<Rightarrow> buttons_config" where
  "as_config bs = ConfigObject (map (\<lambda>(section, ns). (section, map ANode ns)) bs)"

text \<open>
  \<open>addButton(button, section, index)\<close>. The index is \<open>None\<close> when the caller gives none
  or gives something \<open>isNumber\<close> rejects.
\<close>

definition addButton ::
  "(button_config \<Rightarrow> node) \<Rightarrow> (string \<Rightarrow> bool) \<Rightarrow> widget \<Rightarrow> button_arg \<Rightarrow> string option
     \<Rightarrow> int option \<Rightarrow> failure + widget" where
  "addButton Y_Button proto w button section index =
     (let bs = getButtons (buttons_attr w)
      in case resolve_button Y_Button button section of
           (b, section1) \<Rightarrow>
             (let section2 = section_or_default section1
              in case section_array proto bs section2 of
                   Inl e \<Rightarrow> Inl e
                 | Inr sectionButtons \<Rightarrow>
                     (let index' = (case index of Some i \<Rightarrow> i
                                    | None \<Rightarrow> int (length sectionButtons));
                          bs' = obj_put section2 (splice_insert sectionButtons index' b) bs
                      in set_buttons Y_Button proto w (as_config bs')
                           (SrcAdd b section2 index'))))"

text \<open>
  \<open>getButton(name, section)\<close>: by index within a section, or by name. By index,
  \<open>buttons[section] && buttons[section][name]\<close> is \<open>undefined\<close> unless the section is an
  own array that has the index (an inherited member has no property under a number). By
  name, \<open>this._buttonsMap[name]\<close> is the mapped node, else what \<open>Object.prototype\<close>
  holds under the name, else \<open>undefined\<close>.
\<close>

datatype button_ref = ByIndex int | ByName string

definition getButton ::
  "(string \<Rightarrow> bool) \<Rightarrow> widget \<Rightarrow> button_ref \<Rightarrow> string option \<Rightarrow> node lookup" where
  "getButton proto w name section =
     (case name of
        ByIndex i \<Rightarrow>
          (case obj_get proto (getButtons (buttons_attr w)) (section_or_default section) of
             Own ns \<Rightarrow> (case node_at ns i of Some b \<Rightarrow> Own b | None \<Rightarrow> Missing)
           | Inherited \<Rightarrow> Missing
           | Missing \<Rightarrow> Missing)
      | ByName n \<Rightarrow>
          (case buttonsMap w n of
             Some b \<Rightarrow> Own b
           | None \<Rightarrow> if proto n then Inherited else Missing))"

text \<open>\<open>getButton\<close> on the widget that a call left, or the failure of that call.\<close>

definition then_getButton ::
  "(string \<Rightarrow> bool) \<Rightarrow> failure + widget \<Rightarrow> button_ref \<Rightarrow> string option \<Rightarrow> failure + node lookup" where
  "then_getButton proto r name section =
     (case r of Inl e \<Rightarrow> Inl e | Inr w \<Rightarrow> Inr (getButton proto w name section))"

text \<open>
  The states of the \<open>buttons\<close> attribute that the setter produces: no section name
  twice, no empty section name, and none that \<open>Object.prototype\<close> answers to.
\<close>

definition wf_buttons :: "(string \<Rightarrow> bool) \<Rightarrow> buttons \<Rightarrow> bool" where
  "wf_buttons proto bs \<longleftrightarrow>
     distinct (map fst bs) \<and> list_all (\<lambda>k. k \<noteq> [] \<and> \<not> proto k) (map fst bs)"

text \<open>
  The member names that the language standard gives \<open>Object.prototype\<close>: the names
  every engine answers to.
\<close>

definition standard_prototype :: "string \<Rightarrow> bool" where
  "standard_prototype key \<longleftrightarrow>
     key \<in> set [''constructor'', ''toString'', ''toLocaleString'', ''valueOf'', ''hasOwnProperty'',
                ''isPrototypeOf'', ''propertyIsEnumerable'']"

subsection \<open>Sample nodes and widgets\<close>

definition host_button :: "button_config \<Rightarrow> node" where
  "host_button config =
     \<lparr>node_id = 100, data_name = None, attr_name = Some [], data_default = JUndefined\<rparr>"

definition ok_button :: node where
  "ok_button = \<lparr>node_id = 1, data_name = Some ''ok'', attr_name = Some [], data_default = JStr ''TRUE''\<rparr>"

definition cancel_button :: node where
  "cancel_button =
     \<lparr>node_id = 2, data_name = Some ''cancel'', attr_name = Some [], data_default = JUndefined\<rparr>"

definition help_button :: node where
  "help_button =
     \<lparr>node_id = 3, data_name = None, attr_name = Some ''help'', data_default = JUndefined\<rparr>"

definition empty_widget :: widget where
  "empty_widget =
     \<lparr>stdModNode = JRef 0, buttons_attr = [], buttonsMap = Map.empty, defaultButton = None,
      buttonsChangeBound = True\<rparr>"

definition bare_widget :: widget where
  "bare_widget =
     \<lparr>stdModNode = JUndefined, buttons_attr = [], buttonsMap = Map.empty, defaultButton = None,
      buttonsChangeBound = False\<rparr>"


text \<open>A widget that has been constructed but not rendered: \<open>bindUI\<close> has not run.\<close>

definition unrendered_widget :: widget where
  "unrendered_widget = empty_widget\<lparr>buttonsChangeBound := False\<rparr>"

subsection \<open>The getter on a heap: what is shared and what is new\<close>

text \<open>
  Whether the caller of \<open>get('buttons')\<close> can reach the widget's state depends on which
  objects are new, so here objects live in a store. An address is an index into the
  heap; a cell is an object from section name to the address of an array, or an array of
  nodes. Nodes are values: they are what the copy and the state share.
\<close>

datatype heap_cell = ObjCell "(string \<times> nat) list" | ArrCell "node list"

type_synonym heap = "heap_cell list"

definition alloc :: "heap \<Rightarrow> heap_cell \<Rightarrow> nat \<times> heap" where
  "alloc h c = (length h, h @ [c])"

definition read_obj :: "heap \<Rightarrow> nat \<Rightarrow> (string \<times> nat) list option" where
  "read_obj h a =
     (if a < length h then (case h ! a of ObjCell ps \<Rightarrow> Some ps | ArrCell ns \<Rightarrow> None) else None)"

definition read_arr :: "heap \<Rightarrow> nat \<Rightarrow> node list option" where
  "read_arr h a =
     (if a < length h then (case h ! a of ArrCell ns \<Rightarrow> Some ns | ObjCell ps \<Rightarrow> None) else None)"

text \<open>
  The callback of \<open>YObject.each\<close> in \<open>_getButtons\<close>:
  \<open>buttonsCopy[section] = sectionButtons.concat()\<close>. The result is \<open>None\<close> when an
  address does not hold what the code expects there.
\<close>

fun copy_sections :: "heap \<Rightarrow> nat \<Rightarrow> (string \<times> nat) list \<Rightarrow> heap option" where
  "copy_sections h buttonsCopy [] = Some h"
| "copy_sections h buttonsCopy ((section, sectionButtons) # rest) =
     (case read_arr h sectionButtons of
        None \<Rightarrow> None
      | Some ns \<Rightarrow>
          (case alloc h (ArrCell ns) of
             (a, h1) \<Rightarrow>
               (case read_obj h1 buttonsCopy of
                  None \<Rightarrow> None
                | Some ps \<Rightarrow>
                    copy_sections (h1[buttonsCopy := ObjCell (obj_put section a ps)])
                      buttonsCopy rest)))"

text \<open>\<open>_getButtons(buttons)\<close>: \<open>var buttonsCopy = {}\<close>, the loop, \<open>return buttonsCopy\<close>.\<close>

definition heap_getButtons :: "heap \<Rightarrow> nat \<Rightarrow> (nat \<times> heap) option" where
  "heap_getButtons h buttons =
     (case read_obj h buttons of
        None \<Rightarrow> None
      | Some ps \<Rightarrow>
          (case alloc h (ObjCell []) of
             (buttonsCopy, h0) \<Rightarrow> map_option (Pair buttonsCopy) (copy_sections h0 buttonsCopy ps)))"

text \<open>The buttons value that an address stands for.\<close>

fun view_props :: "heap \<Rightarrow> (string \<times> nat) list \<Rightarrow> buttons option" where
  "view_props h [] = Some []"
| "view_props h ((section, a) # ps) =
     (case read_arr h a of
        None \<Rightarrow> None
      | Some ns \<Rightarrow> (case view_props h ps of None \<Rightarrow> None | Some bs \<Rightarrow> Some ((section, ns) # bs)))"

definition view :: "heap \<Rightarrow> nat \<Rightarrow> buttons option" where
  "view h a = (case read_obj h a of None \<Rightarrow> None | Some ps \<Rightarrow> view_props h ps)"

text \<open>
  What a caller can do to the object it got and to the arrays in it: assign a new array
  to a section, delete a section, or change an array in place (\<open>push\<close>, \<open>splice\<close>, an
  index write, a new \<open>length\<close>), which leaves the array with some other content.
\<close>

datatype mutation =
  AssignNew string "node list"
| DeleteProp string
| ArrayReplace string "node list"

fun mutate :: "nat \<Rightarrow> mutation \<Rightarrow> heap \<Rightarrow> heap" where
  "mutate c (AssignNew section ns) h =
     (case read_obj h c of
        None \<Rightarrow> h
      | Some ps \<Rightarrow> (case alloc h (ArrCell ns) of (a, h1) \<Rightarrow> h1[c := ObjCell (obj_put section a ps)]))"
| "mutate c (DeleteProp section) h =
     (case read_obj h c of
        None \<Rightarrow> h
      | Some ps \<Rightarrow> h[c := ObjCell (filter (\<lambda>(k, a). k \<noteq> section) ps)])"
| "mutate c (ArrayReplace section ns) h =
     (case read_obj h c of
        None \<Rightarrow> h
      | Some ps \<Rightarrow> (case map_of ps section of None \<Rightarrow> h | Some a \<Rightarrow> h[a := ArrCell ns]))"

definition sample_heap :: heap where
  "sample_heap = [ObjCell [(''footer'', 1)], ArrCell [ok_button, cancel_button]]"

section \<open>ScrollView: offsets, bounds and the disabled state\<close>

text \<open>
  The scrollview widget itself is not among the sources; its unit tests are. Everything
  in this section follows the specification (its sections on gesture handling and error
  handling, and its glossary) and the calls and expected values of the tests.
\<close>

datatype dim = DimX | DimY

text \<open>
  Modelled from the spec: the gesture state, missing with the widget. It is the
  per-interaction record of start and end client coordinates, deltas, axis lock and flick
  velocity; \<open>None\<close> is the \<open>null\<close> the test of \<open>_onGestureMoveStart\<close> expects in the
  fields a fresh gesture has not filled yet.
\<close>

record gesture =
  axis :: "dim option"
  startX :: int
  startY :: int
  startClientX :: int
  startClientY :: int
  endClientX :: "int option"
  endClientY :: "int option"
  deltaX :: "int option"
  deltaY :: "int option"
  flick_velocity :: "real option"

text \<open>
  Modelled from the spec: the scrollview, missing from the sources. It holds the two
  scroll offsets, the largest offset on each axis (\<open>_maxScrollX\<close> and \<open>_maxScrollY\<close> in
  the tests; the smallest is 0), the \<open>disabled\<close> attribute, the gesture in progress and
  whether a flick animation is running.
\<close>

record scrollview =
  scrollX :: int
  scrollY :: int
  maxScrollX :: nat
  maxScrollY :: nat
  disabled :: bool
  current_gesture :: "gesture option"
  flickAnim :: bool

text \<open>
  Modelled from the spec: setting an offset attribute, \<open>set('scrollX', v)\<close> and
  \<open>set('scrollY', v)\<close>, missing with the widget. A disabled scrollview ignores the call;
  otherwise the offset becomes the value, with no bounding (the tests set \<open>-100\<close> and
  read it back).
\<close>

definition set_scroll :: "dim \<Rightarrow> int \<Rightarrow> scrollview \<Rightarrow> scrollview" where
  "set_scroll d v sv =
     (if disabled sv then sv
      else case d of DimX \<Rightarrow> sv\<lparr>scrollX := v\<rparr> | DimY \<Rightarrow> sv\<lparr>scrollY := v\<rparr>)"

text \<open>
  Modelled from the spec: \<open>scrollTo(x, y)\<close>, missing with the widget, in the state it
  reaches when the scroll has ended. \<open>null\<close> (\<open>None\<close>) leaves an axis where it is; a
  disabled scrollview ignores the call.
\<close>

definition scrollTo :: "int option \<Rightarrow> int option \<Rightarrow> scrollview \<Rightarrow> scrollview" where
  "scrollTo x y sv =
     (if disabled sv then sv
      else (case y of None \<Rightarrow> (\<lambda>s. s) | Some v \<Rightarrow> set_scroll DimY v)
             ((case x of None \<Rightarrow> (\<lambda>s. s) | Some v \<Rightarrow> set_scroll DimX v) sv))"

text \<open>Modelled from the spec: keeping an offset within its bounds, missing with the widget.\<close>

definition constrain :: "int \<Rightarrow> int \<Rightarrow> int \<Rightarrow> int" where
  "constrain v lo hi = min (max v lo) hi"

text \<open>
  Modelled from the spec: \<open>_snapBack\<close>, missing with the widget. The glossary has it
  return an over-scrolled view to its bounds: each offset is set to the nearest value
  between 0 and the largest offset of its axis.
\<close>

definition snapBack :: "scrollview \<Rightarrow> scrollview" where
  "snapBack sv =
     set_scroll DimY (constrain (scrollY sv) 0 (int (maxScrollY sv)))
       (set_scroll DimX (constrain (scrollX sv) 0 (int (maxScrollX sv))) sv)"

text \<open>
  Modelled from the spec: the direction of a mousewheel event, missing with the widget.
  The mock events of the tests carry \<open>wheelDelta = 1\<close> for wheel-up and
  \<open>wheelDelta = -1\<close> for wheel-down; neither the specification nor the tests describe
  an event without a direction.
\<close>

datatype wheel = WheelUp | WheelDown

text \<open>
  Modelled from the spec: \<open>_mousewheel\<close>, missing with the widget. One event asks for
  a step of 10, down the offsets for wheel-up and up the offsets for wheel-down, the
  target is not taken below zero, and the vertical offset is set to it.
\<close>

definition mousewheel :: "wheel \<Rightarrow> scrollview \<Rightarrow> scrollview" where
  "mousewheel e sv =
     set_scroll DimY
       (max 0 (case e of WheelUp \<Rightarrow> scrollY sv - 10 | WheelDown \<Rightarrow> scrollY sv + 10)) sv"

text \<open>
  Modelled from the spec: \<open>_onGestureMoveStart\<close>, missing with the widget. A disabled
  scrollview returns \<open>false\<close> and does nothing. Otherwise a running flick is cancelled
  and a fresh gesture records the offsets and the client coordinates of the event; the
  call then returns nothing (\<open>undefined\<close>).
\<close>

definition onGestureMoveStart :: "int \<times> int \<Rightarrow> scrollview \<Rightarrow> jsval \<times> scrollview" where
  "onGestureMoveStart e sv =
     (if disabled sv then (JBool False, sv)
      else (JUndefined,
            sv\<lparr>flickAnim := False,
               current_gesture := Some
                 \<lparr>axis = None, startX = scrollX sv, startY = scrollY sv,
                  startClientX = fst e, startClientY = snd e,
                  endClientX = None, endClientY = None, deltaX = None, deltaY = None,
                  flick_velocity = None\<rparr>\<rparr>))"

text \<open>
  Modelled from the spec: \<open>_flick\<close>, missing with the widget. A disabled scrollview
  returns \<open>false\<close> and does nothing. For an enabled one the specification describes a
  decaying-velocity frame loop without its constants, so the animation is the parameter
  \<open>animate\<close>, from the axis and velocity of the flick to the state it leaves.
\<close>

definition flick ::
  "(dim \<Rightarrow> real \<Rightarrow> scrollview \<Rightarrow> scrollview) \<Rightarrow> dim \<times> real \<Rightarrow> scrollview \<Rightarrow> jsval \<times> scrollview" where
  "flick animate e sv =
     (if disabled sv then (JBool False, sv)
      else (JUndefined, animate (fst e) (snd e) (sv\<lparr>flickAnim := True\<rparr>)))"

text \<open>The scroll and gesture calls of the interface, and a run of them.\<close>

datatype call =
  SetScroll dim int
| ScrollTo "int option" "int option"
| GestureMoveStart "int \<times> int"
| Flick "dim \<times> real"

fun perform :: "(dim \<Rightarrow> real \<Rightarrow> scrollview \<Rightarrow> scrollview) \<Rightarrow> call \<Rightarrow> scrollview \<Rightarrow> scrollview" where
  "perform animate (SetScroll d v) sv = set_scroll d v sv"
| "perform animate (ScrollTo x y) sv = scrollTo x y sv"
| "perform animate (GestureMoveStart e) sv = snd (onGestureMoveStart e sv)"
| "perform animate (Flick e) sv = snd (flick animate e sv)"

definition run :: "(dim \<Rightarrow> real \<Rightarrow> scrollview \<Rightarrow> scrollview) \<Rightarrow> call list \<Rightarrow> scrollview \<Rightarrow> scrollview" where
  "run animate calls sv = fold (perform animate) calls sv"

subsection \<open>Sample scrollviews\<close>

text \<open>A freshly rendered scrollview as the tests create it, with room to scroll.\<close>

definition new_scrollview :: scrollview where
  "new_scrollview =
     \<lparr>scrollX = 0, scrollY = 0, maxScrollX = 2700, maxScrollY = 200, disabled = False,
      current_gesture = None, flickAnim = False\<rparr>"

text \<open>An animation that jumps by a hundred times the velocity, to have one to run.\<close>

definition jump :: "dim \<Rightarrow> real \<Rightarrow> scrollview \<Rightarrow> scrollview" where
  "jump d velocity sv =
     (case d of
        DimX \<Rightarrow> sv\<lparr>scrollX := scrollX sv - \<lfloor>velocity * 100\<rfloor>\<rparr>
      | DimY \<Rightarrow> sv\<lparr>scrollY := scrollY sv - \<lfloor>velocity * 100\<rfloor>\<rparr>)"

section \<open>Properties of StackedData\<close>

subsection \<open>The loops compute the stacks\<close>

lemma longest_eq: "longest keys len = Max (insert len (set (map (\<lambda>(key, arr). length arr) keys)))"
proof (induction keys arbitrary: len)
  case Nil
  show ?case by simp
next
  case (Cons p keys)
  obtain key arr where p: "p = (key, arr)" by (cases p)
  let ?S = "set (map (\<lambda>(key, arr). length arr) keys)"
  have "longest (p # keys) len = Max (insert (max len (length arr)) ?S)"
    using Cons.IH p by simp
  also have "\<dots> = Max (insert len (insert (length arr) ?S))"
    by (cases "?S = {}") (simp_all add: max.assoc)
  finally show ?case by (simp add: p)
qed

lemma stack_at_sums:
  "stack_at keys i (pos, neg) = (pos + pos_sum keys i, neg + neg_sum keys i)"
proof (induction keys arbitrary: pos neg)
  case Nil
  show ?case by (simp add: pos_sum_def neg_sum_def)
next
  case (Cons p keys)
  obtain key arr where p: "p = (key, arr)" by (cases p)
  show ?case
  proof (cases "at_index arr i")
    case None
    then show ?thesis using Cons.IH p by (simp add: pos_sum_def neg_sum_def)
  next
    case (Some v)
    then show ?thesis using Cons.IH p
      by (cases v) (simp_all add: pos_sum_def neg_sum_def)
  qed
qed

lemma pos_part_nonneg: "0 \<le> pos_part v"
  by (cases v rule: pos_part.cases) simp_all

lemma neg_part_nonpos: "neg_part v \<le> 0"
  by (cases v rule: neg_part.cases) simp_all

lemma pos_sum_nonneg: "0 \<le> pos_sum keys i"
  unfolding pos_sum_def by (rule sum_list_nonneg) (auto simp: pos_part_nonneg)

lemma neg_sum_nonpos: "neg_sum keys i \<le> 0"
  unfolding neg_sum_def by (rule sum_list_nonpos) (auto simp: neg_part_nonpos)

lemma scan_eq:
  "0 \<le> mx \<Longrightarrow> mn \<le> 0 \<Longrightarrow>
   scan keys len i (mx, mn) =
     (Max (insert mx (pos_sum keys ` {i..<len})), Min (insert mn (neg_sum keys ` {i..<len})))"
proof (induction keys len i "(mx, mn)" arbitrary: mx mn rule: scan.induct)
  case (1 keys len i mx mn)
  show ?case
  proof (cases "i < len")
    case False
    then show ?thesis by (simp add: scan.simps)
  next
    case True
    let ?p = "pos_sum keys i" and ?n = "neg_sum keys i"
    have st: "stack_at keys i (0, 0) = (?p, ?n)" by (simp add: stack_at_sums)
    have p0: "0 \<le> ?p" and n0: "?n \<le> 0" by (rule pos_sum_nonneg, rule neg_sum_nonpos)
    have mx': "(if ?p > 0 then max mx ?p else max mx ?n) = max mx ?p"
      using p0 n0 "1.prems" by auto
    have mn': "(if ?n < 0 then min mn ?n else min mn ?p) = min mn ?n"
      using p0 n0 "1.prems" by auto
    have iv: "{i..<len} = insert i {Suc i..<len}" using True by auto
    have "scan keys len i (mx, mn) = scan keys len (Suc i) (max mx ?p, min mn ?n)"
      using True st mx' mn' by (subst scan.simps) simp
    also have "\<dots> = (Max (insert (max mx ?p) (pos_sum keys ` {Suc i..<len})),
                     Min (insert (min mn ?n) (neg_sum keys ` {Suc i..<len})))"
      using "1.hyps"[OF True st[symmetric]] mx' mn' "1.prems" p0 n0
      by simp
    also have "Max (insert (max mx ?p) (pos_sum keys ` {Suc i..<len}))
                 = Max (insert mx (pos_sum keys ` {i..<len}))"
      unfolding iv by (cases "{Suc i..<len} = {}") (simp_all add: max.assoc)
    also have "Min (insert (min mn ?n) (neg_sum keys ` {Suc i..<len}))
                 = Min (insert mn (neg_sum keys ` {i..<len}))"
      unfolding iv by (cases "{Suc i..<len} = {}") (simp_all add: min.assoc)
    finally show ?thesis .
  qed
qed

lemma updateMinAndMax_eq:
  "updateMinAndMax keys =
     \<lparr>actualMaximum = Max (insert 0 (pos_sum keys ` {..<longest_length keys})),
      actualMinimum = Min (insert 0 (neg_sum keys ` {..<longest_length keys}))\<rparr>"
  by (simp add: updateMinAndMax_def scan_eq longest_eq longest_length_def lessThan_atLeast0)

lemma neg_sum_zero:
  assumes "\<forall>(key, arr) \<in> set keys. \<forall>r. Num r \<in> set arr \<longrightarrow> 0 < r"
  shows "neg_sum keys i = 0"
proof -
  have "neg_part (at_index arr i) = 0" if "(key, arr) \<in> set keys" for key arr
  proof (cases "at_index arr i")
    case None
    then show ?thesis by simp
  next
    case (Some v)
    then have mem: "v \<in> set arr" by (auto simp: at_index_def split: if_splits)
    from assms that have every: "\<forall>r. Num r \<in> set arr \<longrightarrow> 0 < r" by blast
    show ?thesis
    proof (cases v)
      case (Num r)
      with mem every have "0 < r" by blast
      then show ?thesis using Some Num by simp
    next
      case NaN
      then show ?thesis using Some by simp
    qed
  qed
  then have "map (\<lambda>(key, arr). neg_part (at_index arr i)) keys = map (\<lambda>_. 0) keys"
    by (intro map_cong) auto
  then have "sum_list (map (\<lambda>(key, arr). neg_part (at_index arr i)) keys)
               = sum_list (map (\<lambda>_. 0) keys)"
    by (rule arg_cong)
  then show ?thesis by (simp add: neg_sum_def)
qed

lemma pos_sum_zero:
  assumes "\<forall>(key, arr) \<in> set keys. \<forall>r. Num r \<in> set arr \<longrightarrow> r < 0"
  shows "pos_sum keys i = 0"
proof -
  have "pos_part (at_index arr i) = 0" if "(key, arr) \<in> set keys" for key arr
  proof (cases "at_index arr i")
    case None
    then show ?thesis by simp
  next
    case (Some v)
    then have mem: "v \<in> set arr" by (auto simp: at_index_def split: if_splits)
    from assms that have every: "\<forall>r. Num r \<in> set arr \<longrightarrow> r < 0" by blast
    show ?thesis
    proof (cases v)
      case (Num r)
      with mem every have "r < 0" by blast
      then show ?thesis using Some Num by simp
    next
      case NaN
      then show ?thesis using Some by simp
    qed
  qed
  then have "map (\<lambda>(key, arr). pos_part (at_index arr i)) keys = map (\<lambda>_. 0) keys"
    by (intro map_cong) auto
  then have "sum_list (map (\<lambda>(key, arr). pos_part (at_index arr i)) keys)
               = sum_list (map (\<lambda>_. 0) keys)"
    by (rule arg_cong)
  then show ?thesis by (simp add: pos_sum_def)
qed

lemma stack_at_skips:
  "stack_at keys i acc = stack_at (filter (\<lambda>(key, arr). \<not> isNaN (at_index arr i)) keys) i acc"
proof (induction keys arbitrary: acc)
  case Nil
  show ?case by simp
next
  case (Cons p keys)
  obtain key arr where p: "p = (key, arr)" by (cases p)
  obtain pos neg where acc: "acc = (pos, neg)" by (cases acc)
  show ?case
  proof (cases "at_index arr i")
    case None
    then show ?thesis using Cons.IH p acc by simp
  next
    case (Some v)
    then show ?thesis using Cons.IH p acc by (cases v) simp_all
  qed
qed

subsection \<open>The loops over the machine's addition\<close>

lemma stack_at_with_runs:
  "stack_at_with add keys i (pos, neg) =
     (foldl add pos (concat (map (\<lambda>(key, arr). nonneg_entry (at_index arr i)) keys)),
      foldl add neg (concat (map (\<lambda>(key, arr). negative_entry (at_index arr i)) keys)))"
proof (induction keys arbitrary: pos neg)
  case Nil
  show ?case by simp
next
  case (Cons p keys)
  obtain key arr where p: "p = (key, arr)" by (cases p)
  show ?case
  proof (cases "at_index arr i")
    case None
    then show ?thesis using Cons.IH p by simp
  next
    case (Some v)
    then show ?thesis using Cons.IH p by (cases v) simp_all
  qed
qed

lemma foldl_nonneg:
  "sign_preserving add \<Longrightarrow> 0 \<le> a \<Longrightarrow> \<forall>x \<in> set xs. 0 \<le> x \<Longrightarrow> 0 \<le> foldl add a xs"
  by (induction xs arbitrary: a) (simp_all add: sign_preserving_def)

lemma foldl_nonpos:
  "sign_preserving add \<Longrightarrow> a \<le> 0 \<Longrightarrow> \<forall>x \<in> set xs. x \<le> 0 \<Longrightarrow> foldl add a xs \<le> 0"
  by (induction xs arbitrary: a) (simp_all add: sign_preserving_def)

lemma nonneg_entry_sign: "x \<in> set (nonneg_entry v) \<Longrightarrow> 0 \<le> x"
  by (cases v rule: nonneg_entry.cases) (simp_all split: if_splits)

lemma negative_entry_sign: "x \<in> set (negative_entry v) \<Longrightarrow> x \<le> 0"
  by (cases v rule: negative_entry.cases) (simp_all split: if_splits)

lemma pos_run_nonneg: "sign_preserving add \<Longrightarrow> 0 \<le> pos_run add keys i"
  unfolding pos_run_def by (rule foldl_nonneg) (auto dest: nonneg_entry_sign)

lemma neg_run_nonpos: "sign_preserving add \<Longrightarrow> neg_run add keys i \<le> 0"
  unfolding neg_run_def by (rule foldl_nonpos) (auto dest: negative_entry_sign)

lemma scan_with_eq:
  "sign_preserving add \<Longrightarrow> 0 \<le> mx \<Longrightarrow> mn \<le> 0 \<Longrightarrow>
   scan_with add keys len i (mx, mn) =
     (Max (insert mx (pos_run add keys ` {i..<len})), Min (insert mn (neg_run add keys ` {i..<len})))"
proof (induction add keys len i "(mx, mn)" arbitrary: mx mn rule: scan_with.induct)
  case (1 add keys len i mx mn)
  show ?case
  proof (cases "i < len")
    case False
    then show ?thesis by (simp add: scan_with.simps)
  next
    case True
    let ?p = "pos_run add keys i" and ?n = "neg_run add keys i"
    have st: "stack_at_with add keys i (0, 0) = (?p, ?n)"
      by (simp add: stack_at_with_runs pos_run_def neg_run_def)
    have p0: "0 \<le> ?p" using "1.prems"(1) by (rule pos_run_nonneg)
    have n0: "?n \<le> 0" using "1.prems"(1) by (rule neg_run_nonpos)
    have mx': "(if ?p > 0 then max mx ?p else max mx ?n) = max mx ?p"
      using p0 n0 "1.prems" by auto
    have mn': "(if ?n < 0 then min mn ?n else min mn ?p) = min mn ?n"
      using p0 n0 "1.prems" by auto
    have iv: "{i..<len} = insert i {Suc i..<len}" using True by auto
    have "scan_with add keys len i (mx, mn) = scan_with add keys len (Suc i) (max mx ?p, min mn ?n)"
      using True st mx' mn' by (subst scan_with.simps) simp
    also have "\<dots> = (Max (insert (max mx ?p) (pos_run add keys ` {Suc i..<len})),
                     Min (insert (min mn ?n) (neg_run add keys ` {Suc i..<len})))"
      using "1.hyps"[OF True st[symmetric]] mx' mn' "1.prems" p0 n0
      by simp
    also have "Max (insert (max mx ?p) (pos_run add keys ` {Suc i..<len}))
                 = Max (insert mx (pos_run add keys ` {i..<len}))"
      unfolding iv by (cases "{Suc i..<len} = {}") (simp_all add: max.assoc)
    also have "Min (insert (min mn ?n) (neg_run add keys ` {Suc i..<len}))
                 = Min (insert mn (neg_run add keys ` {i..<len}))"
      unfolding iv by (cases "{Suc i..<len} = {}") (simp_all add: min.assoc)
    finally show ?thesis .
  qed
qed

lemma updateMinAndMax_with_eq:
  "sign_preserving add \<Longrightarrow>
   updateMinAndMax_with add keys =
     \<lparr>actualMaximum = Max (insert 0 (pos_run add keys ` {..<longest_length keys})),
      actualMinimum = Min (insert 0 (neg_run add keys ` {..<longest_length keys}))\<rparr>"
  by (simp add: updateMinAndMax_with_def scan_with_eq longest_eq longest_length_def lessThan_atLeast0)

text \<open>At the exact addition the parametrised loops are the exact ones.\<close>

lemma stack_at_with_plus: "stack_at_with (+) keys i acc = stack_at keys i acc"
proof (induction keys arbitrary: acc)
  case Nil
  show ?case by (cases acc) simp
next
  case (Cons p keys)
  obtain key arr where p: "p = (key, arr)" by (cases p)
  obtain pos neg where acc: "acc = (pos, neg)" by (cases acc)
  show ?case
  proof (cases "at_index arr i")
    case None
    then show ?thesis using Cons.IH p acc by simp
  next
    case (Some v)
    then show ?thesis using Cons.IH p acc by (cases v) simp_all
  qed
qed

lemma scan_with_plus: "scan_with (+) keys len i acc = scan keys len i acc"
proof (induction keys len i acc rule: scan.induct)
  case (1 keys len i mx mn)
  show ?case
  proof (cases "i < len")
    case False
    then show ?thesis by (simp add: scan.simps scan_with.simps)
  next
    case True
    obtain pos neg where st: "stack_at keys i (0, 0) = (pos, neg)"
      by (cases "stack_at keys i (0, 0)")
    show ?thesis
      using True st "1.IH" [OF True st [symmetric]]
      by (subst scan.simps, subst scan_with.simps) (simp add: stack_at_with_plus)
  qed
qed

lemma updateMinAndMax_with_plus: "updateMinAndMax_with (+) keys = updateMinAndMax keys"
  by (simp add: updateMinAndMax_with_def updateMinAndMax_def scan_with_plus)

lemma sign_preserving_plus: "sign_preserving (+)"
  by (simp add: sign_preserving_def)


text \<open>The bounds include zero with the machine's addition as well.\<close>

lemma updateMinAndMax_with_includes_zero:
  "sign_preserving add \<Longrightarrow>
   0 \<le> actualMaximum (updateMinAndMax_with add keys)
   \<and> actualMinimum (updateMinAndMax_with add keys) \<le> 0"
  by (simp add: updateMinAndMax_with_eq)




subsection \<open>The bounds include zero\<close>

lemma every_number_iff:
  "every_number P keys \<longleftrightarrow> (\<forall>(key, arr) \<in> set keys. \<forall>r. Num r \<in> set arr \<longrightarrow> P r)"
proof -
  have "list_all (\<lambda>v. case v of Num r \<Rightarrow> P r | NaN \<Rightarrow> True) arr
          \<longleftrightarrow> (\<forall>r. Num r \<in> set arr \<longrightarrow> P r)" for arr
    by (induction arr) (auto split: jsnum.splits)
  then show ?thesis
    by (auto simp: every_number_def list_all_iff)
qed

text \<open>
  Claim C9. After \<open>_updateMinAndMax\<close> the actual bounds always include zero: the
  maximum is at least 0 and the minimum at most 0. When every number in the data is
  strictly positive the minimum stays 0, and when every number is strictly negative the
  maximum stays 0. Entries that are not numbers (\<open>NaN\<close>, or the missing entries of a
  shorter series) are skipped: walking all series at an index gives the same two stacks as
  walking only the series that hold a number there.
\<close>

theorem updateMinAndMax_includes_zero:
  "0 \<le> actualMaximum (updateMinAndMax keys)
   \<and> actualMinimum (updateMinAndMax keys) \<le> 0
   \<and> (every_number (\<lambda>r. 0 < r) keys \<longrightarrow> actualMinimum (updateMinAndMax keys) = 0)
   \<and> (every_number (\<lambda>r. r < 0) keys \<longrightarrow> actualMaximum (updateMinAndMax keys) = 0)
   \<and> (\<forall>i acc. stack_at keys i acc
         = stack_at (filter (\<lambda>(key, arr). \<not> isNaN (at_index arr i)) keys) i acc)"
proof -
  let ?n = "longest_length keys"
  have a: "0 \<le> actualMaximum (updateMinAndMax keys)"
    by (simp add: updateMinAndMax_eq)
  have b: "actualMinimum (updateMinAndMax keys) \<le> 0"
    by (simp add: updateMinAndMax_eq)
  have c: "actualMinimum (updateMinAndMax keys) = 0" if "every_number (\<lambda>r. 0 < r) keys"
  proof -
    from that have "\<forall>(key, arr) \<in> set keys. \<forall>r. Num r \<in> set arr \<longrightarrow> 0 < r"
      by (simp add: every_number_iff)
    then have "Min (insert 0 (neg_sum keys ` {..<?n})) = 0"
      by (intro Min_eqI) (auto simp: neg_sum_zero)
    then show ?thesis by (simp add: updateMinAndMax_eq)
  qed
  have d: "actualMaximum (updateMinAndMax keys) = 0" if "every_number (\<lambda>r. r < 0) keys"
  proof -
    from that have "\<forall>(key, arr) \<in> set keys. \<forall>r. Num r \<in> set arr \<longrightarrow> r < 0"
      by (simp add: every_number_iff)
    then have "Max (insert 0 (pos_sum keys ` {..<?n})) = 0"
      by (intro Max_eqI) (auto simp: pos_sum_zero)
    then show ?thesis by (simp add: updateMinAndMax_eq)
  qed
  show ?thesis using a b c d stack_at_skips by blast
qed

text \<open>Data that is positive throughout keeps the minimum 0, data that is negative throughout keeps the maximum 0.\<close>

theorem updateMinAndMax_includes_zero_witness:
  "every_number (\<lambda>r. 0 < r) positive_example
   \<and> actualMinimum (updateMinAndMax positive_example) = 0
   \<and> actualMaximum (updateMinAndMax positive_example) = 8
   \<and> every_number (\<lambda>r. r < 0) negative_example
   \<and> actualMaximum (updateMinAndMax negative_example) = 0
   \<and> actualMinimum (updateMinAndMax negative_example) = - 8"
proof -
  have p: "every_number (\<lambda>r. 0 < r) positive_example"
    by (simp add: every_number_def positive_example_def)
  have n: "every_number (\<lambda>r. r < 0) negative_example"
    by (simp add: every_number_def negative_example_def)
  have mx: "actualMaximum (updateMinAndMax positive_example) = 8"
    by (simp add: updateMinAndMax_def positive_example_def scan.simps at_index_def)
  have mn: "actualMinimum (updateMinAndMax negative_example) = - 8"
    by (simp add: updateMinAndMax_def negative_example_def scan.simps at_index_def)
  show ?thesis
    using updateMinAndMax_includes_zero [of positive_example]
      updateMinAndMax_includes_zero [of negative_example] p n mx mn
    by blast
qed

section \<open>Properties of CategoryImpl\<close>

lemma key_loop_eq:
  "length keyArr = i \<Longrightarrow> length labels = i \<Longrightarrow> i \<le> length data \<Longrightarrow>
   key_loop key data i (keyArr, labels) =
     (keyArr @ map index_value [i..<length data],
      labels @ map (\<lambda>obj. get_prop obj key) (drop i data))"
proof (induction key data i "(keyArr, labels)" arbitrary: keyArr labels rule: key_loop.induct)
  case (1 key data i keyArr labels)
  show ?case
  proof (cases "i < length data")
    case False
    with "1.prems" show ?thesis by (simp add: key_loop.simps)
  next
    case True
    let ?k = "array_set keyArr i (index_value i)"
    let ?l = "array_set labels i (get_prop (data ! i) key)"
    have k: "?k = keyArr @ [index_value i]" and l: "?l = labels @ [get_prop (data ! i) key]"
      using "1.prems" by (simp_all add: array_set_def)
    have "key_loop key data i (keyArr, labels) = key_loop key data (Suc i) (?k, ?l)"
      using True by (subst key_loop.simps) simp
    also have "\<dots> = (?k @ map index_value [Suc i..<length data],
                     ?l @ map (\<lambda>obj. get_prop obj key) (drop (Suc i) data))"
      using True "1.prems" by (intro "1.hyps") (simp_all add: k l)
    also have "?k @ map index_value [Suc i..<length data]
                 = keyArr @ map index_value [i..<length data]"
      using True by (simp add: k upt_conv_Cons)
    also have "?l @ map (\<lambda>obj. get_prop obj key) (drop (Suc i) data)
                 = labels @ map (\<lambda>obj. get_prop obj key) (drop i data)"
      using True by (simp add: l Cons_nth_drop_Suc [symmetric])
    finally show ?thesis .
  qed
qed

lemma key_loop_result:
  "key_loop key data 0 ([], []) =
     (map index_value [0..<length data], map (\<lambda>obj. get_prop obj key) data)"
  using key_loop_eq [of "[]" 0 "[]" data key] by simp

text \<open>
  Claim C2. For every key and every data array of length \<open>n\<close>, rebuilding the index
  stores in \<open>_indices[key]\<close> the positions \<open>0, 1, ..., n - 1\<close> in order, and stores
  (\<open>_setDataByKey\<close>, in the \<open>keys\<close> attribute) or returns (\<open>_getKeyArray\<close>) the
  \<open>n\<close> labels \<open>obj[key]\<close> of the data elements, in order.
\<close>

theorem rebuilt_index:
  "(\<exists>m. indices (setDataByKey key s) = Some m
        \<and> m key = Some (map index_value [0..<length (dataClone s)]))
   \<and> keys_attr (setDataByKey key s) key = Some (map (\<lambda>obj. get_prop obj key) (dataClone s))
   \<and> fst (getKeyArray key data s) = map (\<lambda>obj. get_prop obj key) data
   \<and> (\<exists>m. indices (snd (getKeyArray key data s)) = Some m
        \<and> m key = Some (map index_value [0..<length data]))"
  by (simp add: setDataByKey_def getKeyArray_def key_loop_result)

text \<open>The sample axis: two data elements, the second without the key.\<close>

theorem rebuilt_index_witness:
  "(\<exists>m. indices (setDataByKey ''category'' category_example) = Some m
        \<and> m ''category'' = Some [JNum (Num 0), JNum (Num 1)])
   \<and> keys_attr (setDataByKey ''category'' category_example) ''category''
        = Some [JStr ''a'', JUndefined]
   \<and> fst (getKeyArray ''category'' (dataClone category_example) category_example)
        = [JStr ''a'', JUndefined]"
  using rebuilt_index [of "''category''" category_example "dataClone category_example"]
  by (simp add: category_example_def get_prop_def index_value_def upt_rec)

text \<open>
  Claim C8. \<open>getKeyValueAt(key, index)\<close> returns \<open>NaN\<close> when the key is absent, when
  the index is out of range, and also whenever the label stored at the index is falsy
  (the empty string, 0 and \<open>null\<close> are); it returns the stored label when that label is
  truthy.
\<close>

theorem getKeyValueAt_cases:
  "(keys_attr s key = None \<longrightarrow> getKeyValueAt s key index = JNum NaN)
   \<and> (keys_attr s key = Some arr \<and> (index < 0 \<or> int (length arr) \<le> index)
        \<longrightarrow> getKeyValueAt s key index = JNum NaN)
   \<and> (keys_attr s key = Some arr \<and> 0 \<le> index \<and> index < int (length arr)
        \<and> \<not> truthy (arr ! nat index)
        \<longrightarrow> getKeyValueAt s key index = JNum NaN)
   \<and> (keys_attr s key = Some arr \<and> 0 \<le> index \<and> index < int (length arr)
        \<and> truthy (arr ! nat index)
        \<longrightarrow> getKeyValueAt s key index = arr ! nat index)
   \<and> \<not> truthy (JStr []) \<and> \<not> truthy (JNum (Num 0)) \<and> \<not> truthy JNull"
  by (auto simp: getKeyValueAt_def array_get_def)

text \<open>The sample axis, with a missing key, indices out of range, the falsy labels and two truthy ones.\<close>

theorem getKeyValueAt_cases_witness:
  "getKeyValueAt category_example ''missing'' 0 = JNum NaN
   \<and> getKeyValueAt category_example ''category'' 5 = JNum NaN
   \<and> getKeyValueAt category_example ''category'' (- 1) = JNum NaN
   \<and> getKeyValueAt category_example ''category'' 1 = JNum NaN
   \<and> getKeyValueAt category_example ''category'' 2 = JNum NaN
   \<and> getKeyValueAt category_example ''category'' 3 = JNum NaN
   \<and> getKeyValueAt category_example ''category'' 0 = JStr ''a''
   \<and> getKeyValueAt category_example ''category'' 4 = JNum (Num 7)"
proof -
  let ?arr = "[JStr ''a'', JStr [], JNum (Num 0), JNull, JNum (Num 7)]"
  have k: "keys_attr category_example ''category'' = Some ?arr"
    and m: "keys_attr category_example ''missing'' = None"
    by (simp_all add: category_example_def)
  show ?thesis
    using getKeyValueAt_cases [of category_example "''missing''" 0 ?arr]
      getKeyValueAt_cases [of category_example "''category''" 5 ?arr]
      getKeyValueAt_cases [of category_example "''category''" "- 1" ?arr]
      getKeyValueAt_cases [of category_example "''category''" 1 ?arr]
      getKeyValueAt_cases [of category_example "''category''" 2 ?arr]
      getKeyValueAt_cases [of category_example "''category''" 3 ?arr]
      getKeyValueAt_cases [of category_example "''category''" 0 ?arr]
      getKeyValueAt_cases [of category_example "''category''" 4 ?arr]
      k m
    by simp
qed

section \<open>Properties of WidgetButtons\<close>

subsection \<open>Objects as property lists\<close>

lemma map_of_obj_put: "map_of (obj_put k v ps) = (map_of ps)(k \<mapsto> v)"
  by (induction ps) (auto simp: fun_eq_iff)

lemma keys_obj_put: "set (map fst (obj_put k v ps)) = insert k (set (map fst ps))"
proof -
  have "fst ` set (obj_put k v ps) = dom (map_of (obj_put k v ps))"
    by (simp add: dom_map_of_conv_image_fst)
  also have "\<dots> = insert k (fst ` set ps)"
    by (simp add: map_of_obj_put dom_map_of_conv_image_fst)
  finally show ?thesis by simp
qed

lemma distinct_obj_put: "distinct (map fst ps) \<Longrightarrow> distinct (map fst (obj_put k v ps))"
proof (induction ps)
  case Nil
  show ?case by simp
next
  case (Cons p ps)
  obtain a x where p: "p = (a, x)" by (cases p)
  show ?case
  proof (cases "a = k")
    case True
    with Cons.prems p show ?thesis by simp
  next
    case False
    have "a \<notin> set (map fst (obj_put k v ps))"
      using Cons.prems False p unfolding keys_obj_put by simp
    with Cons False p show ?thesis by simp
  qed
qed

lemma obj_put_new: "k \<notin> set (map fst ps) \<Longrightarrow> obj_put k v ps = ps @ [(k, v)]"
  by (induction ps) auto


lemma wf_buttons_iff:
  "wf_buttons proto bs \<longleftrightarrow>
     distinct (map fst bs) \<and> [] \<notin> set (map fst bs) \<and> (\<forall>k \<in> set (map fst bs). \<not> proto k)"
  by (force simp: wf_buttons_def list_all_iff)

lemma wf_obj_put:
  "wf_buttons proto bs \<Longrightarrow> k \<noteq> [] \<Longrightarrow> \<not> proto k \<Longrightarrow> wf_buttons proto (obj_put k v bs)"
  unfolding wf_buttons_iff using distinct_obj_put [of bs k v] keys_obj_put [of k v bs] by auto

lemma wf_obj_put_own:
  "wf_buttons proto bs \<Longrightarrow> k \<in> set (map fst bs) \<Longrightarrow> wf_buttons proto (obj_put k v bs)"
  unfolding wf_buttons_iff using distinct_obj_put [of bs k v] keys_obj_put [of k v bs] by auto

lemma copy_loop_append:
  "distinct (map fst bs) \<Longrightarrow> set (map fst bs) \<inter> set (map fst acc) = {} \<Longrightarrow>
   copy_loop bs acc = acc @ bs"
proof (induction bs arbitrary: acc)
  case Nil
  show ?case by simp
next
  case (Cons p bs)
  obtain s ns where p: "p = (s, ns)" by (cases p)
  have new: "s \<notin> set (map fst acc)" using Cons.prems p by auto
  have "copy_loop (p # bs) acc = copy_loop bs (acc @ [(s, ns)])"
    using new by (simp add: p obj_put_new)
  also have "\<dots> = (acc @ [(s, ns)]) @ bs"
    using Cons.prems p by (intro Cons.IH) auto
  finally show ?case by (simp add: p)
qed

lemma getButtons_id: "distinct (map fst bs) \<Longrightarrow> getButtons bs = bs"
  by (simp add: getButtons_def copy_loop_append)

lemma section_or_default_nonempty: "section_or_default section \<noteq> []"
  by (auto simp: section_or_default_def DEFAULT_BUTTONS_SECTION_def split: option.splits)


text \<open>Under a name that \<open>Object.prototype\<close> does not answer to, the lookup is the
  object's own.\<close>

lemma section_array_own:
  "\<not> proto s \<Longrightarrow> section_array proto bs s = Inr (section_sequence bs s)"
  by (simp add: section_array_def obj_get_def section_sequence_def split: option.splits)

lemma section_array_held:
  "s \<in> set (map fst bs) \<Longrightarrow> section_array proto bs s = Inr (section_sequence bs s)"
proof -
  assume "s \<in> set (map fst bs)"
  then obtain ns where "map_of bs s = Some ns"
    by (metis map_of_eq_None_iff not_Some_eq set_map)
  then show ?thesis by (simp add: section_array_def obj_get_def section_sequence_def)
qed

lemma section_array_inherited:
  "proto s \<Longrightarrow> s \<notin> set (map fst bs) \<Longrightarrow> section_array proto bs s = Inl TypeError"
  by (simp add: section_array_def obj_get_def map_of_eq_None_iff [THEN iffD2])

lemma obj_push_own:
  "\<not> proto s \<Longrightarrow> obj_push proto s b bs = Inr (obj_put s (section_sequence bs s @ [b]) bs)"
  by (simp add: obj_push_def section_array_own)








lemma wf_obj_push:
  assumes "wf_buttons proto bs" "s \<noteq> []" "obj_push proto s b bs = Inr bs'"
  shows "wf_buttons proto bs'"
proof (cases "s \<in> set (map fst bs)")
  case True
  then have "bs' = obj_put s (section_sequence bs s @ [b]) bs"
    using assms(3) by (simp add: obj_push_def section_array_held)
  then show ?thesis using assms(1) True by (simp add: wf_obj_put_own)
next
  case False
  have np: "\<not> proto s"
  proof
    assume "proto s"
    then have "obj_push proto s b bs = Inl TypeError"
      using False by (simp add: obj_push_def section_array_inherited)
    with assms(3) show False by simp
  qed
  then have "bs' = obj_put s (section_sequence bs s @ [b]) bs"
    using assms(3) by (simp add: obj_push_own)
  then show ?thesis using assms(1,2) np by (simp add: wf_obj_put)
qed

lemma wf_processButtons:
  "wf_buttons proto bs \<Longrightarrow>
   processButtons Y_Button proto buttonConfigs currentSection bs = Inr bs' \<Longrightarrow>
   wf_buttons proto bs'"
proof (induction buttonConfigs arbitrary: bs)
  case Nil
  then show ?case by simp
next
  case (Cons button rest)
  obtain b sec where r: "resolve_button Y_Button button currentSection = (b, sec)"
    by (cases "resolve_button Y_Button button currentSection")
  from Cons.prems(2) r obtain bs1 where
    p: "obj_push proto (section_or_default sec) b bs = Inr bs1"
      "processButtons Y_Button proto rest currentSection bs1 = Inr bs'"
    by (auto split: sum.splits)
  have "wf_buttons proto bs1"
    using Cons.prems(1) section_or_default_nonempty p(1) by (rule wf_obj_push)
  then show ?case using p(2) by (rule Cons.IH)
qed

lemma wf_each_section:
  "wf_buttons proto bs \<Longrightarrow> each_section Y_Button proto sections bs = Inr bs' \<Longrightarrow>
   wf_buttons proto bs'"
proof (induction sections arbitrary: bs)
  case Nil
  then show ?case by simp
next
  case (Cons p sections)
  obtain s cs where p: "p = (s, cs)" by (cases p)
  from Cons.prems(2) p obtain bs1 where
    q: "processButtons Y_Button proto cs (Some s) bs = Inr bs1"
      "each_section Y_Button proto sections bs1 = Inr bs'"
    by (auto split: sum.splits)
  have "wf_buttons proto bs1" using Cons.prems(1) q(1) by (rule wf_processButtons)
  then show ?case using q(2) by (rule Cons.IH)
qed

text \<open>Every state the setter produces is well formed, whatever the configuration.\<close>

lemma wf_setButtons: "setButtons Y_Button proto config = Inr bs \<Longrightarrow> wf_buttons proto bs"
proof -
  assume r: "setButtons Y_Button proto config = Inr bs"
  have e: "wf_buttons proto []" by (simp add: wf_buttons_def)
  show ?thesis
  proof (cases config)
    case (ConfigArray cs)
    with r have "processButtons Y_Button proto cs None [] = Inr bs" by (simp add: setButtons_def)
    with e show ?thesis by (rule wf_processButtons)
  next
    case (ConfigObject sections)
    with r have "each_section Y_Button proto sections [] = Inr bs" by (simp add: setButtons_def)
    with e show ?thesis by (rule wf_each_section)
  qed
qed

subsection \<open>The constructor, \<open>addButton\<close> and \<open>getButton\<close>\<close>




text \<open>
  Claim C6. Constructing \<open>WidgetButtons\<close> on a widget without \<open>WidgetStdMod\<close> (its
  \<open>_stdModNode\<close> is \<open>undefined\<close>) raises the host framework's error; with
  \<open>WidgetStdMod\<close> mixed in (\<open>_stdModNode\<close> is a function) it raises nothing.
\<close>

theorem WidgetButtons_requires_stdmod:
  "(stdModNode w = JUndefined \<longrightarrow> (\<exists>msg. WidgetButtons w = Inl (YError msg)))
   \<and> (stdModNode w = JRef f \<longrightarrow> WidgetButtons w = Inr ())"
  by (simp add: WidgetButtons_def)

text \<open>A widget without and a widget with \<open>WidgetStdMod\<close>.\<close>

theorem WidgetButtons_requires_stdmod_witness:
  "stdModNode bare_widget = JUndefined
   \<and> (\<exists>msg. WidgetButtons bare_widget = Inl (YError msg))
   \<and> stdModNode empty_widget = JRef 0
   \<and> WidgetButtons empty_widget = Inr ()"
  using WidgetButtons_requires_stdmod [of bare_widget 0]
    WidgetButtons_requires_stdmod [of empty_widget 0]
  by (simp add: bare_widget_def empty_widget_def)





text \<open>
  Before \<open>_bindUIButtons\<close> has run nothing keeps the name map up to date: the button
  is in its section, and the lookup by name does not find it.
\<close>

lemma addButton_before_bindUI:
  "then_getButton standard_prototype
     (addButton host_button standard_prototype unrendered_widget (ANode ok_button) None None)
     (ByIndex 0) None = Inr (Own ok_button)
   \<and> then_getButton standard_prototype
     (addButton host_button standard_prototype unrendered_widget (ANode ok_button) None None)
     (ByName ''ok'') None = Inr Missing"
  by (simp add: then_getButton_def addButton_def getButton_def getButtons_def unrendered_widget_def
      empty_widget_def resolve_button_def section_or_default_def DEFAULT_BUTTONS_SECTION_def
      section_array_def obj_get_def standard_prototype_def splice_insert_def set_buttons_def
      as_config_def setButtons_def obj_push_def node_at_def Let_def)

subsection \<open>The copy that \<open>get('buttons')\<close> returns\<close>

lemma read_old:
  "take n h1 = take n h \<Longrightarrow> n \<le> length h1 \<Longrightarrow> n \<le> length h \<Longrightarrow> a < n \<Longrightarrow>
   read_arr h1 a = read_arr h a \<and> read_obj h1 a = read_obj h a"
proof -
  assume t: "take n h1 = take n h" and l: "n \<le> length h1" "n \<le> length h" and a: "a < n"
  have "h1 ! a = take n h1 ! a" using a by simp
  also have "\<dots> = h ! a" using a t by simp
  finally show ?thesis using a l by (simp add: read_arr_def read_obj_def)
qed

lemma read_arr_bound: "read_arr h a = Some ns \<Longrightarrow> a < length h"
  by (simp add: read_arr_def split: if_splits)

lemma read_obj_bound: "read_obj h a = Some ps \<Longrightarrow> a < length h"
  by (simp add: read_obj_def split: if_splits)

lemma view_props_bound: "view_props h ps = Some bs \<Longrightarrow> \<forall>a \<in> snd ` set ps. a < length h"
proof (induction ps arbitrary: bs)
  case Nil
  show ?case by simp
next
  case (Cons p ps)
  obtain s a where p: "p = (s, a)" by (cases p)
  from Cons.prems p obtain ns bs' where r: "read_arr h a = Some ns" "view_props h ps = Some bs'"
    by (auto split: option.splits)
  show ?case using Cons.IH [OF r(2)] read_arr_bound [OF r(1)] by (simp add: p)
qed

text \<open>A value read through addresses below \<open>n\<close> only depends on the first \<open>n\<close> cells.\<close>

lemma view_props_old:
  assumes "take n h1 = take n h" "n \<le> length h1" "n \<le> length h"
  shows "\<forall>a \<in> snd ` set ps. a < n \<Longrightarrow> view_props h1 ps = view_props h ps"
proof (induction ps)
  case Nil
  show ?case by simp
next
  case (Cons p ps)
  obtain s a where p: "p = (s, a)" by (cases p)
  have "a < n" using Cons.prems p by simp
  then have "read_arr h1 a = read_arr h a" using read_old [OF assms] by simp
  moreover have "view_props h1 ps = view_props h ps" using Cons by simp
  ultimately show ?case by (simp add: p split: option.splits)
qed

lemma view_old:
  assumes v: "view h a = Some bs" and t: "take (length h) h1 = h" and l: "length h \<le> length h1"
  shows "view h1 a = Some bs"
proof -
  from v obtain ps where ps: "read_obj h a = Some ps" "view_props h ps = Some bs"
    by (auto simp: view_def split: option.splits)
  have a: "a < length h" using ps(1) by (rule read_obj_bound)
  have t': "take (length h) h1 = take (length h) h" using t by simp
  have "read_obj h1 a = Some ps" using read_old [OF t' l _ a] ps(1) by simp
  moreover have "view_props h1 ps = view_props h ps"
    using view_props_bound [OF ps(2)] by (intro view_props_old [OF t' l]) auto
  ultimately show ?thesis using ps(2) by (simp add: view_def)
qed

lemma take_full:
  assumes "take (length h) h0 = h"
  shows "length h \<le> length h0"
proof -
  have "length (take (length h) h0) = length h" using assms by simp
  then show ?thesis by simp
qed

lemma view_props_reads:
  "view_props h ps = Some bs \<Longrightarrow> \<forall>a \<in> snd ` set ps. \<exists>ns. read_arr h a = Some ns"
proof (induction ps arbitrary: bs)
  case Nil
  show ?case by simp
next
  case (Cons p ps)
  obtain s a where p: "p = (s, a)" by (cases p)
  from Cons.prems p obtain ns bs' where r: "read_arr h a = Some ns" "view_props h ps = Some bs'"
    by (auto split: option.splits)
  show ?case using Cons.IH [OF r(2)] r(1) by (simp add: p)
qed

lemma view_props_cong:
  "\<forall>a \<in> snd ` set ps. read_arr h1 a = read_arr h a \<Longrightarrow> view_props h1 ps = view_props h ps"
proof (induction ps)
  case Nil
  show ?case by simp
next
  case (Cons p ps)
  obtain s a where p: "p = (s, a)" by (cases p)
  have "read_arr h1 a = read_arr h a" using Cons.prems p by simp
  moreover have "view_props h1 ps = view_props h ps" using Cons by simp
  ultimately show ?case by (simp add: p split: option.splits)
qed

lemma view_props_obj_put:
  "view_props h ps = Some vps \<Longrightarrow> read_arr h a = Some ns \<Longrightarrow>
   view_props h (obj_put s a ps) = Some (obj_put s ns vps)"
proof (induction ps arbitrary: vps)
  case Nil
  then show ?case by simp
next
  case (Cons p ps)
  obtain k x where p: "p = (k, x)" by (cases p)
  from Cons.prems(1) p obtain xs vps' where
    r: "read_arr h x = Some xs" "view_props h ps = Some vps'" "vps = (k, xs) # vps'"
    by (auto split: option.splits)
  show ?case
  proof (cases "k = s")
    case True
    then show ?thesis using r Cons.prems(2) by (simp add: p)
  next
    case False
    then show ?thesis using r Cons.IH [OF r(2) Cons.prems(2)] by (simp add: p)
  qed
qed

lemma values_obj_put: "\<forall>a \<in> snd ` set ps. P a \<Longrightarrow> P v \<Longrightarrow> \<forall>a \<in> snd ` set (obj_put k v ps). P a"
proof (induction ps)
  case Nil
  then show ?case by simp
next
  case (Cons p ps)
  obtain k' x where p: "p = (k', x)" by (cases p)
  show ?case
  proof (cases "k' = k")
    case True
    then show ?thesis using Cons.prems by (simp add: p)
  next
    case False
    then show ?thesis using Cons by (simp add: p)
  qed
qed

lemma copy_sections_ok:
  assumes "view_props h ps = Some bs"
    and "take (length h) h0 = h"
    and "length h \<le> c"
    and "read_obj h0 c = Some acc"
    and "\<forall>a \<in> snd ` set acc. length h \<le> a"
    and "view_props h0 acc = Some vacc"
  shows "\<exists>h'. copy_sections h0 c ps = Some h' \<and> take (length h) h' = h
           \<and> (\<exists>acc'. read_obj h' c = Some acc' \<and> (\<forall>a \<in> snd ` set acc'. length h \<le> a)
                 \<and> view_props h' acc' = Some (copy_loop bs vacc))"
  using assms
proof (induction ps arbitrary: h0 acc vacc bs)
  case Nil
  then show ?case by auto
next
  case (Cons p ps)
  obtain s a where p: "p = (s, a)" by (cases p)
  from Cons.prems(1) p obtain ns bs' where
    r: "read_arr h a = Some ns" "view_props h ps = Some bs'" "bs = (s, ns) # bs'"
    by (auto split: option.splits)
  let ?n = "length h"
  have len: "?n \<le> length h0" using Cons.prems(2) by (rule take_full)
  have c: "c < length h0" using Cons.prems(4) by (rule read_obj_bound)
  have a: "a < ?n" using r(1) by (rule read_arr_bound)
  have t0: "take ?n h0 = take ?n h" using Cons.prems(2) by simp
  have ra: "read_arr h0 a = Some ns" using read_old [OF t0 len _ a] r(1) by simp
  let ?a' = "length h0"
  let ?h1 = "h0 @ [ArrCell ns]"
  let ?acc = "obj_put s ?a' acc"
  let ?h2 = "?h1[c := ObjCell ?acc]"
  have ro: "read_obj ?h1 c = Some acc"
    using Cons.prems(4) c by (simp add: read_obj_def nth_append)
  have step: "copy_sections h0 c (p # ps) = copy_sections ?h2 c ps"
    by (simp add: p ra alloc_def ro)
  have t2: "take ?n ?h2 = h"
    using Cons.prems(2,3) len by simp
  have ro2: "read_obj ?h2 c = Some ?acc"
    using c by (simp add: read_obj_def)
  have vals: "\<forall>x \<in> snd ` set ?acc. ?n \<le> x"
    using Cons.prems(5) len by (rule values_obj_put)
  have same: "read_arr ?h2 x = read_arr h0 x" if "x \<in> snd ` set acc" for x
  proof -
    from view_props_reads [OF Cons.prems(6)] that obtain xs where xs: "read_arr h0 x = Some xs"
      by blast
    then have "x < length h0" by (rule read_arr_bound)
    moreover have "x \<noteq> c"
      using xs Cons.prems(4) by (auto simp: read_arr_def read_obj_def split: if_splits heap_cell.splits)
    ultimately show ?thesis by (simp add: read_arr_def nth_append)
  qed
  have "view_props ?h2 acc = Some vacc"
    using view_props_cong [of acc ?h2 h0] same Cons.prems(6) by simp
  moreover have "read_arr ?h2 ?a' = Some ns"
    using c by (simp add: read_arr_def)
  ultimately have v2: "view_props ?h2 ?acc = Some (obj_put s ns vacc)"
    by (rule view_props_obj_put)
  from Cons.IH [OF r(2) t2 Cons.prems(3) ro2 vals v2]
  show ?case unfolding step by (simp add: r(3))
qed

lemma heap_getButtons_ok:
  assumes "view h buttons = Some bs"
  shows "\<exists>c h'. heap_getButtons h buttons = Some (c, h') \<and> length h \<le> c
           \<and> take (length h) h' = h
           \<and> (\<exists>ps. read_obj h' c = Some ps \<and> (\<forall>a \<in> snd ` set ps. length h \<le> a)
                 \<and> view_props h' ps = Some (getButtons bs))"
proof -
  from assms obtain ps where ps: "read_obj h buttons = Some ps" "view_props h ps = Some bs"
    by (auto simp: view_def split: option.splits)
  let ?c = "length h"
  let ?h0 = "h @ [ObjCell []]"
  have "\<exists>h'. copy_sections ?h0 ?c ps = Some h' \<and> take (length h) h' = h
           \<and> (\<exists>acc'. read_obj h' ?c = Some acc' \<and> (\<forall>a \<in> snd ` set acc'. length h \<le> a)
                 \<and> view_props h' acc' = Some (copy_loop bs []))"
    by (rule copy_sections_ok [OF ps(2), where acc = "[]" and vacc = "[]"])
      (simp_all add: read_obj_def)
  then show ?thesis
    by (auto simp: heap_getButtons_def ps(1) alloc_def getButtons_def)
qed

lemma mutate_frame:
  assumes "take n h1 = h" "length h = n" "n \<le> c"
    and "\<forall>ps. read_obj h1 c = Some ps \<longrightarrow> (\<forall>a \<in> snd ` set ps. n \<le> a)"
  shows "take n (mutate c m h1) = h
       \<and> (\<forall>ps. read_obj (mutate c m h1) c = Some ps \<longrightarrow> (\<forall>a \<in> snd ` set ps. n \<le> a))"
proof (cases "read_obj h1 c")
  case None
  then show ?thesis using assms by (cases m) simp_all
next
  case (Some ps)
  have c: "c < length h1" using Some by (rule read_obj_bound)
  have n: "n \<le> length h1" using assms(1,2) take_full [of h h1] by simp
  have vals: "\<forall>a \<in> snd ` set ps. n \<le> a" using assms(4) Some by simp
  show ?thesis
  proof (cases m)
    case (AssignNew s ns)
    have "\<forall>a \<in> snd ` set (obj_put s (length h1) ps). n \<le> a"
      using vals n by (rule values_obj_put)
    then show ?thesis using assms(1,3) Some c n by (simp add: AssignNew alloc_def read_obj_def)
  next
    case (DeleteProp s)
    have "\<forall>a \<in> snd ` set (filter (\<lambda>(k, a). k \<noteq> s) ps). n \<le> a"
      using vals by auto
    then show ?thesis using assms(1,3) Some c by (simp add: DeleteProp read_obj_def)
  next
    case (ArrayReplace s ns)
    show ?thesis
    proof (cases "map_of ps s")
      case None
      then show ?thesis using assms Some by (simp add: ArrayReplace)
    next
      case (Some a)
      then have "(s, a) \<in> set ps" by (rule map_of_SomeD)
      then have a: "n \<le> a" using vals by force
      have "read_obj (h1[a := ArrCell ns]) c = Some ps' \<Longrightarrow> ps' = ps" for ps'
        using \<open>read_obj h1 c = Some ps\<close>
        by (cases "a = c") (auto simp: read_obj_def split: if_splits)
      then show ?thesis
        using assms(1) a vals Some \<open>read_obj h1 c = Some ps\<close> by (auto simp: ArrayReplace)
    qed
  qed
qed

lemma mutations_frame:
  assumes "length h = n" "n \<le> c"
  shows "take n h1 = h \<Longrightarrow>
         \<forall>ps. read_obj h1 c = Some ps \<longrightarrow> (\<forall>a \<in> snd ` set ps. n \<le> a) \<Longrightarrow>
         take n (fold (mutate c) ms h1) = h"
proof (induction ms arbitrary: h1)
  case Nil
  then show ?case by simp
next
  case (Cons m ms)
  from mutate_frame [OF Cons.prems(1) assms Cons.prems(2), of m]
  show ?case using Cons.IH by simp
qed

text \<open>
  Claim C10. \<open>get('buttons')\<close> returns a fresh copy of the state: a new outer object
  and a new array for every section, with the same nodes in them. The addresses of the
  copy lie outside the heap the getter started from, the getter writes to none of the old
  cells, and whatever the caller then does to the returned object or its arrays leaves
  the widget's own \<open>buttons\<close> state as it was.
\<close>

theorem getButtons_fresh_copy:
  assumes "view h buttons = Some bs"
  shows "\<exists>c h'. heap_getButtons h buttons = Some (c, h')
           \<and> view h' c = Some (getButtons bs)
           \<and> (distinct (map fst bs) \<longrightarrow> view h' c = Some bs)
           \<and> length h \<le> c
           \<and> (\<exists>ps. read_obj h' c = Some ps \<and> (\<forall>a \<in> snd ` set ps. length h \<le> a))
           \<and> take (length h) h' = h
           \<and> (\<forall>ms. view (fold (mutate c) ms h') buttons = Some bs)
           \<and> (\<forall>h''. take (length h) h'' = h \<longrightarrow> view h'' buttons = Some bs)"
proof -
  from heap_getButtons_ok [OF assms] obtain c h' ps where
    r: "heap_getButtons h buttons = Some (c, h')" "length h \<le> c" "take (length h) h' = h"
      "read_obj h' c = Some ps" "\<forall>a \<in> snd ` set ps. length h \<le> a"
      "view_props h' ps = Some (getButtons bs)"
    by blast
  have v: "view h' c = Some (getButtons bs)" using r(4,6) by (simp add: view_def)
  have frame: "view h'' buttons = Some bs" if "take (length h) h'' = h" for h''
    using assms that take_full [OF that] by (rule view_old)
  have muts: "view (fold (mutate c) ms h') buttons = Some bs" for ms
  proof (rule frame)
    show "take (length h) (fold (mutate c) ms h') = h"
      using r(3) by (rule mutations_frame [OF refl r(2)]) (simp add: r(4,5))
  qed
  have "view h' c = Some bs" if "distinct (map fst bs)"
    using v that by (simp add: getButtons_id)
  with r v frame muts show ?thesis by blast
qed

lemma sample_heap_view: "view sample_heap 0 = Some [(''footer'', [ok_button, cancel_button])]"
  by (simp add: view_def sample_heap_def read_obj_def read_arr_def)

text \<open>A heap with one footer of two buttons: the caller empties the returned array, adds a header and deletes the footer, and the state still holds the two buttons.\<close>

theorem getButtons_fresh_copy_witness:
  "view sample_heap 0 = Some [(''footer'', [ok_button, cancel_button])]
   \<and> (\<exists>c h'. heap_getButtons sample_heap 0 = Some (c, h')
         \<and> c = 2
         \<and> view h' c = Some [(''footer'', [ok_button, cancel_button])]
         \<and> view (fold (mutate c)
                   [ArrayReplace ''footer'' [], AssignNew ''header'' [help_button],
                    DeleteProp ''footer''] h') c
             = Some [(''header'', [help_button])]
         \<and> view (fold (mutate c)
                   [ArrayReplace ''footer'' [], AssignNew ''header'' [help_button],
                    DeleteProp ''footer''] h') 0
             = Some [(''footer'', [ok_button, cancel_button])])"
proof -
  from getButtons_fresh_copy [OF sample_heap_view] obtain c h' where
    r: "heap_getButtons sample_heap 0 = Some (c, h')"
      "distinct (map fst [(''footer'', [ok_button, cancel_button])]) \<longrightarrow>
         view h' c = Some [(''footer'', [ok_button, cancel_button])]"
      "\<forall>ms. view (fold (mutate c) ms h') 0 = Some [(''footer'', [ok_button, cancel_button])]"
    by blast
  have run: "heap_getButtons sample_heap 0
               = Some (2, sample_heap @ [ObjCell [(''footer'', 3)], ArrCell [ok_button, cancel_button]])"
    by (simp add: heap_getButtons_def sample_heap_def read_obj_def read_arr_def alloc_def)
  with r(1) have c: "c = 2"
    and h': "h' = sample_heap @ [ObjCell [(''footer'', 3)], ArrCell [ok_button, cancel_button]]"
    by simp_all
  let ?ms = "[ArrayReplace ''footer'' [], AssignNew ''header'' [help_button], DeleteProp ''footer'']"
  have own: "view (fold (mutate c) ?ms h') c = Some [(''header'', [help_button])]"
    by (simp add: c h' sample_heap_def read_obj_def read_arr_def alloc_def view_def)
  have kept: "view (fold (mutate c) ?ms h') 0 = Some [(''footer'', [ok_button, cancel_button])]"
    using r(3) by (rule spec)
  have copy: "view h' c = Some [(''footer'', [ok_button, cancel_button])]"
    using r(2) by simp
  show ?thesis
  proof (intro conjI exI)
    show "view sample_heap 0 = Some [(''footer'', [ok_button, cancel_button])]"
      by (rule sample_heap_view)
    show "heap_getButtons sample_heap 0 = Some (c, h')" by (rule r(1))
    show "c = 2" by (rule c)
    show "view h' c = Some [(''footer'', [ok_button, cancel_button])]" by (rule copy)
    show "view (fold (mutate c) ?ms h') c = Some [(''header'', [help_button])]" by (rule own)
    show "view (fold (mutate c) ?ms h') 0 = Some [(''footer'', [ok_button, cancel_button])]"
      by (rule kept)
  qed
qed

section \<open>Properties of the ScrollView model\<close>

lemma perform_disabled: "disabled sv \<Longrightarrow> perform animate c sv = sv"
  by (cases c) (simp_all add: set_scroll_def scrollTo_def onGestureMoveStart_def flick_def)

text \<open>
  Claim C5. On a scrollview whose \<open>disabled\<close> attribute is true the scroll and gesture
  calls are silent no-ops: \<open>scrollTo\<close> and setting an offset leave the state as it was,
  \<open>_onGestureMoveStart\<close> and \<open>_flick\<close> return \<open>false\<close> and change nothing, and so
  does any sequence of these calls.
\<close>

theorem disabled_ignores_calls:
  assumes "disabled sv"
  shows "set_scroll d v sv = sv
       \<and> scrollTo x y sv = sv
       \<and> onGestureMoveStart e sv = (JBool False, sv)
       \<and> flick animate f sv = (JBool False, sv)
       \<and> run animate calls sv = sv
       \<and> scrollX (run animate calls sv) = scrollX sv
       \<and> scrollY (run animate calls sv) = scrollY sv"
proof -
  have "run animate calls sv = sv"
    unfolding run_def using assms by (induction calls) (simp_all add: perform_disabled)
  then show ?thesis
    using assms by (simp add: set_scroll_def scrollTo_def onGestureMoveStart_def flick_def)
qed

text \<open>The calls of the tests on a disabled scrollview; the last line shows that the same flick moves an enabled one.\<close>

theorem disabled_ignores_calls_witness:
  "disabled (new_scrollview\<lparr>disabled := True\<rparr>)
   \<and> scrollX (scrollTo (Some 500) None (new_scrollview\<lparr>disabled := True\<rparr>)) = 0
   \<and> scrollY (set_scroll DimY 500 (new_scrollview\<lparr>disabled := True\<rparr>)) = 0
   \<and> fst (onGestureMoveStart (0, 0) (new_scrollview\<lparr>disabled := True\<rparr>)) = JBool False
   \<and> fst (flick jump (DimX, - 1) (new_scrollview\<lparr>disabled := True\<rparr>)) = JBool False
   \<and> run jump [ScrollTo (Some 500) None, SetScroll DimY 500, GestureMoveStart (0, 0),
                Flick (DimX, - 1)] (new_scrollview\<lparr>disabled := True\<rparr>)
        = new_scrollview\<lparr>disabled := True\<rparr>
   \<and> scrollX (run jump [Flick (DimX, - 1)] new_scrollview) = 100"
proof -
  let ?sv = "new_scrollview\<lparr>disabled := True\<rparr>"
  have d: "disabled ?sv" by simp
  have zero: "scrollX ?sv = 0" "scrollY ?sv = 0" by (simp_all add: new_scrollview_def)
  have moved: "scrollX (run jump [Flick (DimX, - 1)] new_scrollview) = 100"
    by (simp add: run_def flick_def jump_def new_scrollview_def)
  show ?thesis
    using disabled_ignores_calls [OF d, of DimY 500 "Some 500" None "(0, 0)" jump "(DimX, - 1)"
        "[ScrollTo (Some 500) None, SetScroll DimY 500, GestureMoveStart (0, 0), Flick (DimX, - 1)]"]
      d zero moved
    by simp
qed

text \<open>
  Claim C3, as amended. On a scrollview that is not disabled, \<open>_snapBack\<close> returns an
  offset that is out of bounds to the nearest bound: a negative offset (such as one set
  through \<open>set('scrollX', -100)\<close>) to zero, and an offset above the largest one of its
  axis to that largest offset.
\<close>

theorem snapBack_to_bounds:
  assumes "\<not> disabled sv"
  shows "scrollX (snapBack sv) = constrain (scrollX sv) 0 (int (maxScrollX sv))
       \<and> scrollY (snapBack sv) = constrain (scrollY sv) 0 (int (maxScrollY sv))
       \<and> (scrollX sv < 0 \<longrightarrow> scrollX (snapBack sv) = 0)
       \<and> (scrollY sv < 0 \<longrightarrow> scrollY (snapBack sv) = 0)
       \<and> (int (maxScrollX sv) < scrollX sv \<longrightarrow> scrollX (snapBack sv) = int (maxScrollX sv))
       \<and> (int (maxScrollY sv) < scrollY sv \<longrightarrow> scrollY (snapBack sv) = int (maxScrollY sv))
       \<and> (\<forall>v. v < 0 \<longrightarrow> scrollX (snapBack (set_scroll DimX v sv)) = 0)
       \<and> (\<forall>v. v < 0 \<longrightarrow> scrollY (snapBack (set_scroll DimY v sv)) = 0)"
  using assms by (auto simp: snapBack_def set_scroll_def constrain_def)

text \<open>The two snap-back tests: the offset is set to -100, read back, and snapped back to 0.\<close>

theorem snapBack_to_bounds_witness:
  "\<not> disabled new_scrollview
   \<and> scrollX (set_scroll DimX (- 100) new_scrollview) = - 100
   \<and> scrollX (snapBack (set_scroll DimX (- 100) new_scrollview)) = 0
   \<and> scrollY (set_scroll DimY (- 100) new_scrollview) = - 100
   \<and> scrollY (snapBack (set_scroll DimY (- 100) new_scrollview)) = 0"
proof -
  have e: "\<not> disabled new_scrollview" by (simp add: new_scrollview_def)
  have set: "scrollX (set_scroll DimX (- 100) new_scrollview) = - 100"
    "scrollY (set_scroll DimY (- 100) new_scrollview) = - 100"
    by (simp_all add: set_scroll_def new_scrollview_def)
  show ?thesis using snapBack_to_bounds [OF e] e set by simp
qed

text \<open>
  Claim C3 as stated fails in two places: an offset moved out of bounds past the end
  snaps back to the largest offset, not to zero, and a scrollview that was disabled after
  the offset left the bounds does not snap back.
\<close>

theorem snapBack_counterexample:
  "scrollX (snapBack (set_scroll DimX 3000 new_scrollview)) = 2700
   \<and> scrollX (snapBack ((set_scroll DimX (- 100) new_scrollview)\<lparr>disabled := True\<rparr>)) = - 100"
  by (simp add: snapBack_def set_scroll_def constrain_def new_scrollview_def)

text \<open>
  Claim C4, as amended. On a scrollview that is not disabled, one mousewheel event moves
  the vertical offset by the step 10 in the direction of the wheel and never takes it
  below zero: wheel-down from 0 gives 10, wheel-up from 10 gives 0, and wheel-up from 0
  leaves 0. The horizontal offset stays.
\<close>

theorem mousewheel_step:
  assumes "\<not> disabled sv"
  shows "scrollY (mousewheel WheelDown sv) = max 0 (scrollY sv + 10)
       \<and> scrollY (mousewheel WheelUp sv) = max 0 (scrollY sv - 10)
       \<and> 0 \<le> scrollY (mousewheel e sv)
       \<and> scrollX (mousewheel e sv) = scrollX sv
       \<and> (0 \<le> scrollY sv \<longrightarrow> scrollY (mousewheel WheelDown sv) = scrollY sv + 10)
       \<and> (10 \<le> scrollY sv \<longrightarrow> scrollY (mousewheel WheelUp sv) = scrollY sv - 10)
       \<and> (scrollY sv = 0 \<longrightarrow> scrollY (mousewheel WheelDown sv) = 10)
       \<and> (scrollY sv = 10 \<longrightarrow> scrollY (mousewheel WheelUp sv) = 0)
       \<and> (scrollY sv = 0 \<longrightarrow> scrollY (mousewheel WheelUp sv) = 0)"
  using assms by (cases e) (auto simp: mousewheel_def set_scroll_def)

text \<open>The three mousewheel tests.\<close>

theorem mousewheel_step_witness:
  "\<not> disabled new_scrollview
   \<and> scrollY (mousewheel WheelDown new_scrollview) = 10
   \<and> scrollY (mousewheel WheelUp (set_scroll DimY 10 new_scrollview)) = 0
   \<and> scrollY (mousewheel WheelUp new_scrollview) = 0"
proof -
  have e: "\<not> disabled new_scrollview" "\<not> disabled (set_scroll DimY 10 new_scrollview)"
    by (simp_all add: new_scrollview_def set_scroll_def)
  have v: "scrollY new_scrollview = 0" "scrollY (set_scroll DimY 10 new_scrollview) = 10"
    by (simp_all add: new_scrollview_def set_scroll_def)
  show ?thesis
    using mousewheel_step [OF e(1), of WheelDown] mousewheel_step [OF e(2), of WheelUp] e v
    by simp
qed

text \<open>
  Claim C4 as stated fails on a disabled scrollview, where wheel-down from 0 leaves 0.
\<close>

theorem mousewheel_counterexample:
  "scrollY (mousewheel WheelDown (new_scrollview\<lparr>disabled := True\<rparr>)) = 0"
  by (simp add: mousewheel_def set_scroll_def new_scrollview_def)

end
